theory Spec2Isabelle
  imports Complex_Main "HOL-Library.Sublist" "HOL-Library.Word"
begin

section \<open>Values and strings of the server\<close>

text \<open>
  The server (\<^verbatim>\<open>server.js\<close>) is JavaScript, whose strings are lists of 16-bit code units.
  The classifier is modelled on such lists (\<open>analyzeSpam16\<close>, with the lowercase mapping of
  Unicode), and once more, with the handlers, on a \<^typ>\<open>string\<close>: the list of its code units
  restricted to the units \<open>0x00..0xFF\<close> (the Latin-1 range, which holds every lexicon entry).
  On these the two classifiers agree (\<open>analyzeSpam16_unitsOf\<close>). \<open>length\<close> is the \<^verbatim>\<open>.length\<close> of
  the source. Numbers are exact
  rationals: the only numbers the server computes are \<open>score / 5\<close> for a score of at most
  twelve, \<open>Math.min\<close> of it with one, and its product with one hundred, and on these the
  comparisons of the source with \<open>0.5\<close>, \<open>1\<close> and \<open>40\<close> have the same outcome in
  double precision as over the rationals.
\<close>

text \<open>A value that arrives in a JSON request body (arrays and objects are not told apart).\<close>

datatype jsvalue =
    JUndefined
  | JNull
  | JBool bool
  | JNum rat
  | JStr string
  | JObject

text \<open>The truthiness that \<^verbatim>\<open>!x\<close>, \<^verbatim>\<open>x || y\<close>, \<^verbatim>\<open>x && y\<close> and \<^verbatim>\<open>if (x)\<close> test.\<close>

fun truthy :: "jsvalue \<Rightarrow> bool" where
  "truthy JUndefined = False"
| "truthy JNull = False"
| "truthy (JBool b) = b"
| "truthy (JNum n) = (n \<noteq> 0)"
| "truthy (JStr s) = (s \<noteq> [])"
| "truthy JObject = True"

text \<open>
  \<^verbatim>\<open>String.prototype.toLowerCase\<close> on the modelled range: the ASCII capitals and the
  Latin-1 capitals (\<open>0xC0..0xDE\<close> without the multiplication sign \<open>0xD7\<close>) move up by
  \<open>0x20\<close>; every other unit stays.
\<close>

definition toLowerCaseUnit :: "char \<Rightarrow> char" where
  "toLowerCaseUnit c =
     (let n = (of_char c :: nat)
      in if (65 \<le> n \<and> n \<le> 90) \<or> (192 \<le> n \<and> n \<le> 222 \<and> n \<noteq> 215)
         then char_of (n + 32) else c)"

definition toLowerCase :: "string \<Rightarrow> string" where
  "toLowerCase s = map toLowerCaseUnit s"

text \<open>\<^verbatim>\<open>s.includes(w)\<close>: \<open>w\<close> occurs in \<open>s\<close> at some position.\<close>

fun startsWith :: "'a list \<Rightarrow> 'a list \<Rightarrow> bool" where
  "startsWith s [] = True"
| "startsWith [] (c # w) = False"
| "startsWith (d # s) (c # w) = (d = c \<and> startsWith s w)"

fun includesStr :: "'a list \<Rightarrow> 'a list \<Rightarrow> bool" where
  "includesStr [] w = (w = [])"
| "includesStr (d # s) w = (startsWith (d # s) w \<or> includesStr s w)"

text \<open>
  The white space and line terminators that \<^verbatim>\<open>String.prototype.trim\<close> strips, on the
  modelled range: TAB, LF, VT, FF, CR, SPACE and NO-BREAK SPACE.
\<close>

definition isWhiteSpace :: "char \<Rightarrow> bool" where
  "isWhiteSpace c = ((of_char c :: nat) \<in> {9, 10, 11, 12, 13, 32, 160})"

definition trim :: "string \<Rightarrow> string" where
  "trim s = rev (dropWhile isWhiteSpace (rev (dropWhile isWhiteSpace s)))"

section \<open>The classifier\<close>

definition SPAM_KEYWORDS :: "string list" where
  "SPAM_KEYWORDS =
     [''free'', ''win'', ''winner'', ''prize'', ''congratulations'', ''click here'',
      ''lottery'', ''cash'', ''urgent'', ''offer'', ''limited time'', ''buy now'']"

record analysis =
  result :: string
  probability :: rat
  matchedKeywords :: "string list"

text \<open>The body of the \<^verbatim>\<open>forEach\<close> callback: push the word when the lowered text holds it.\<close>

definition pushIfIncluded :: "string \<Rightarrow> string \<Rightarrow> string list \<Rightarrow> string list" where
  "pushIfIncluded lower word matched =
     (if includesStr lower word then matched @ [word] else matched)"

definition analyzeSpam :: "string \<Rightarrow> analysis" where
  "analyzeSpam text =
     (let lower = toLowerCase text;
          matched = fold (pushIfIncluded lower) SPAM_KEYWORDS [];
          score = length matched;
          probability = min 1 (of_nat score / 5);
          result = (if probability \<ge> 1 / 2 then ''spam'' else ''not_spam'')
      in \<lparr> result = result, probability = probability, matchedKeywords = matched \<rparr>)"

section \<open>The classifier on strings of 16-bit code units\<close>

text \<open>A code unit of a JavaScript string, and a string of the Latin-1 range as such units.\<close>

type_synonym codeUnit = "16 word"

definition unitOf :: "char \<Rightarrow> codeUnit" where
  "unitOf c = of_nat (of_char c)"

definition unitsOf :: "string \<Rightarrow> codeUnit list" where
  "unitsOf s = map unitOf s"

text \<open>
  \<^verbatim>\<open>String.prototype.toLowerCase\<close> reads the string as code points: a lead surrogate followed by
  a trail surrogate is one code point, every other unit (a lone surrogate too) is one by
  itself. It lowers the code points and writes them back as code units.
\<close>

definition isLeadSurrogate :: "codeUnit \<Rightarrow> bool" where
  "isLeadSurrogate u = (0xD800 \<le> unat u \<and> unat u \<le> 0xDBFF)"

definition isTrailSurrogate :: "codeUnit \<Rightarrow> bool" where
  "isTrailSurrogate u = (0xDC00 \<le> unat u \<and> unat u \<le> 0xDFFF)"

fun stringToCodePoints :: "codeUnit list \<Rightarrow> nat list" where
  "stringToCodePoints [] = []"
| "stringToCodePoints [u] = [unat u]"
| "stringToCodePoints (u # v # us) =
     (if isLeadSurrogate u \<and> isTrailSurrogate v
      then (0x10000 + (unat u - 0xD800) * 0x400 + (unat v - 0xDC00)) # stringToCodePoints us
      else unat u # stringToCodePoints (v # us))"

definition utf16Encode :: "nat \<Rightarrow> codeUnit list" where
  "utf16Encode cp =
     (if cp < 0x10000 then [of_nat cp]
      else [of_nat (0xD800 + (cp - 0x10000) div 0x400),
            of_nat (0xDC00 + (cp - 0x10000) mod 0x400)])"

definition codePointsToString :: "nat list \<Rightarrow> codeUnit list" where
  "codePointsToString cps = concat (map utf16Encode cps)"

text \<open>
  The simple lowercase mappings of the Unicode Character Database (\<^verbatim>\<open>UnicodeData.txt\<close>, version
  14.0), as rows \<open>(lo, hi, stride, delta)\<close>: a code point \<open>cp\<close> with \<open>lo \<le> cp \<le> hi\<close> and
  \<open>(cp - lo) mod stride = 0\<close> has the lowercase \<open>cp + delta\<close>; a code point of no row is its
  own lowercase.
\<close>

definition lowerRanges :: "(nat \<times> nat \<times> nat \<times> int) list" where
  "lowerRanges =
     [
      (0x41, 0x5A, 1, 32), (0xC0, 0xD6, 1, 32), (0xD8, 0xDE, 1, 32),
      (0x100, 0x12E, 2, 1), (0x132, 0x136, 2, 1), (0x139, 0x147, 2, 1),
      (0x14A, 0x176, 2, 1), (0x178, 0x178, 1, - 121), (0x179, 0x17D, 2, 1),
      (0x181, 0x181, 1, 210), (0x182, 0x184, 2, 1), (0x186, 0x186, 1, 206),
      (0x187, 0x187, 1, 1), (0x189, 0x18A, 1, 205), (0x18B, 0x18B, 1, 1),
      (0x18E, 0x18E, 1, 79), (0x18F, 0x18F, 1, 202), (0x190, 0x190, 1, 203),
      (0x191, 0x191, 1, 1), (0x193, 0x193, 1, 205), (0x194, 0x194, 1, 207),
      (0x196, 0x196, 1, 211), (0x197, 0x197, 1, 209), (0x198, 0x198, 1, 1),
      (0x19C, 0x19C, 1, 211), (0x19D, 0x19D, 1, 213), (0x19F, 0x19F, 1, 214),
      (0x1A0, 0x1A4, 2, 1), (0x1A6, 0x1A6, 1, 218), (0x1A7, 0x1A7, 1, 1),
      (0x1A9, 0x1A9, 1, 218), (0x1AC, 0x1AC, 1, 1), (0x1AE, 0x1AE, 1, 218),
      (0x1AF, 0x1AF, 1, 1), (0x1B1, 0x1B2, 1, 217), (0x1B3, 0x1B5, 2, 1),
      (0x1B7, 0x1B7, 1, 219), (0x1B8, 0x1B8, 1, 1), (0x1BC, 0x1BC, 1, 1),
      (0x1C4, 0x1C4, 1, 2), (0x1C5, 0x1C5, 1, 1), (0x1C7, 0x1C7, 1, 2),
      (0x1C8, 0x1C8, 1, 1), (0x1CA, 0x1CA, 1, 2), (0x1CB, 0x1DB, 2, 1),
      (0x1DE, 0x1EE, 2, 1), (0x1F1, 0x1F1, 1, 2), (0x1F2, 0x1F4, 2, 1),
      (0x1F6, 0x1F6, 1, - 97), (0x1F7, 0x1F7, 1, - 56), (0x1F8, 0x21E, 2, 1),
      (0x220, 0x220, 1, - 130), (0x222, 0x232, 2, 1), (0x23A, 0x23A, 1, 10795),
      (0x23B, 0x23B, 1, 1), (0x23D, 0x23D, 1, - 163), (0x23E, 0x23E, 1, 10792),
      (0x241, 0x241, 1, 1), (0x243, 0x243, 1, - 195), (0x244, 0x244, 1, 69),
      (0x245, 0x245, 1, 71), (0x246, 0x24E, 2, 1), (0x370, 0x372, 2, 1),
      (0x376, 0x376, 1, 1), (0x37F, 0x37F, 1, 116), (0x386, 0x386, 1, 38),
      (0x388, 0x38A, 1, 37), (0x38C, 0x38C, 1, 64), (0x38E, 0x38F, 1, 63),
      (0x391, 0x3A1, 1, 32), (0x3A3, 0x3AB, 1, 32), (0x3CF, 0x3CF, 1, 8),
      (0x3D8, 0x3EE, 2, 1), (0x3F4, 0x3F4, 1, - 60), (0x3F7, 0x3F7, 1, 1),
      (0x3F9, 0x3F9, 1, - 7), (0x3FA, 0x3FA, 1, 1), (0x3FD, 0x3FF, 1, - 130),
      (0x400, 0x40F, 1, 80), (0x410, 0x42F, 1, 32), (0x460, 0x480, 2, 1),
      (0x48A, 0x4BE, 2, 1), (0x4C0, 0x4C0, 1, 15), (0x4C1, 0x4CD, 2, 1),
      (0x4D0, 0x52E, 2, 1), (0x531, 0x556, 1, 48), (0x10A0, 0x10C5, 1, 7264),
      (0x10C7, 0x10C7, 1, 7264), (0x10CD, 0x10CD, 1, 7264), (0x13A0, 0x13EF, 1, 38864),
      (0x13F0, 0x13F5, 1, 8), (0x1C90, 0x1CBA, 1, - 3008), (0x1CBD, 0x1CBF, 1, - 3008),
      (0x1E00, 0x1E94, 2, 1), (0x1E9E, 0x1E9E, 1, - 7615), (0x1EA0, 0x1EFE, 2, 1),
      (0x1F08, 0x1F0F, 1, - 8), (0x1F18, 0x1F1D, 1, - 8), (0x1F28, 0x1F2F, 1, - 8),
      (0x1F38, 0x1F3F, 1, - 8), (0x1F48, 0x1F4D, 1, - 8), (0x1F59, 0x1F5F, 2, - 8),
      (0x1F68, 0x1F6F, 1, - 8), (0x1F88, 0x1F8F, 1, - 8), (0x1F98, 0x1F9F, 1, - 8),
      (0x1FA8, 0x1FAF, 1, - 8), (0x1FB8, 0x1FB9, 1, - 8), (0x1FBA, 0x1FBB, 1, - 74),
      (0x1FBC, 0x1FBC, 1, - 9), (0x1FC8, 0x1FCB, 1, - 86), (0x1FCC, 0x1FCC, 1, - 9),
      (0x1FD8, 0x1FD9, 1, - 8), (0x1FDA, 0x1FDB, 1, - 100), (0x1FE8, 0x1FE9, 1, - 8),
      (0x1FEA, 0x1FEB, 1, - 112), (0x1FEC, 0x1FEC, 1, - 7), (0x1FF8, 0x1FF9, 1, - 128),
      (0x1FFA, 0x1FFB, 1, - 126), (0x1FFC, 0x1FFC, 1, - 9), (0x2126, 0x2126, 1, - 7517),
      (0x212A, 0x212A, 1, - 8383), (0x212B, 0x212B, 1, - 8262), (0x2132, 0x2132, 1, 28),
      (0x2160, 0x216F, 1, 16), (0x2183, 0x2183, 1, 1), (0x24B6, 0x24CF, 1, 26),
      (0x2C00, 0x2C2F, 1, 48), (0x2C60, 0x2C60, 1, 1), (0x2C62, 0x2C62, 1, - 10743),
      (0x2C63, 0x2C63, 1, - 3814), (0x2C64, 0x2C64, 1, - 10727), (0x2C67, 0x2C6B, 2, 1),
      (0x2C6D, 0x2C6D, 1, - 10780), (0x2C6E, 0x2C6E, 1, - 10749), (0x2C6F, 0x2C6F, 1, - 10783),
      (0x2C70, 0x2C70, 1, - 10782), (0x2C72, 0x2C72, 1, 1), (0x2C75, 0x2C75, 1, 1),
      (0x2C7E, 0x2C7F, 1, - 10815), (0x2C80, 0x2CE2, 2, 1), (0x2CEB, 0x2CED, 2, 1),
      (0x2CF2, 0x2CF2, 1, 1), (0xA640, 0xA66C, 2, 1), (0xA680, 0xA69A, 2, 1),
      (0xA722, 0xA72E, 2, 1), (0xA732, 0xA76E, 2, 1), (0xA779, 0xA77B, 2, 1),
      (0xA77D, 0xA77D, 1, - 35332), (0xA77E, 0xA786, 2, 1), (0xA78B, 0xA78B, 1, 1),
      (0xA78D, 0xA78D, 1, - 42280), (0xA790, 0xA792, 2, 1), (0xA796, 0xA7A8, 2, 1),
      (0xA7AA, 0xA7AA, 1, - 42308), (0xA7AB, 0xA7AB, 1, - 42319), (0xA7AC, 0xA7AC, 1, - 42315),
      (0xA7AD, 0xA7AD, 1, - 42305), (0xA7AE, 0xA7AE, 1, - 42308), (0xA7B0, 0xA7B0, 1, - 42258),
      (0xA7B1, 0xA7B1, 1, - 42282), (0xA7B2, 0xA7B2, 1, - 42261), (0xA7B3, 0xA7B3, 1, 928),
      (0xA7B4, 0xA7C2, 2, 1), (0xA7C4, 0xA7C4, 1, - 48), (0xA7C5, 0xA7C5, 1, - 42307),
      (0xA7C6, 0xA7C6, 1, - 35384), (0xA7C7, 0xA7C9, 2, 1), (0xA7D0, 0xA7D0, 1, 1),
      (0xA7D6, 0xA7D8, 2, 1), (0xA7F5, 0xA7F5, 1, 1), (0xFF21, 0xFF3A, 1, 32),
      (0x10400, 0x10427, 1, 40), (0x104B0, 0x104D3, 1, 40), (0x10570, 0x1057A, 1, 39),
      (0x1057C, 0x1058A, 1, 39), (0x1058C, 0x10592, 1, 39), (0x10594, 0x10595, 1, 39),
      (0x10C80, 0x10CB2, 1, 64), (0x118A0, 0x118BF, 1, 32), (0x16E40, 0x16E5F, 1, 32),
      (0x1E900, 0x1E921, 1, 34)
     ]"

fun lookupLower :: "(nat \<times> nat \<times> nat \<times> int) list \<Rightarrow> nat \<Rightarrow> nat" where
  "lookupLower [] cp = cp"
| "lookupLower ((lo, hi, stride, delta) # rs) cp =
     (if lo \<le> cp \<and> cp \<le> hi \<and> (cp - lo) mod stride = 0
      then nat (int cp + delta) else lookupLower rs cp)"

definition simpleLowercase :: "nat \<Rightarrow> nat" where
  "simpleLowercase cp = lookupLower lowerRanges cp"

text \<open>
  The lowering of a list of code points, with the two cases of \<^verbatim>\<open>SpecialCasing.txt\<close> that hold
  in every locale. CAPITAL LETTER I WITH DOT ABOVE (\<open>0x130\<close>) becomes \<open>i\<close> followed by COMBINING
  DOT ABOVE. CAPITAL SIGMA (\<open>0x3A3\<close>) becomes the final small sigma at the end of a word and
  the small sigma elsewhere; where a word ends is told by the properties Cased and
  Case_Ignorable of the neighbours, and is the parameter \<open>finalSigma\<close> here, which is given
  the code points before the sigma (the nearest first) and those after it.
\<close>

fun toLowercaseFrom :: "(nat list \<Rightarrow> nat list \<Rightarrow> bool) \<Rightarrow> nat list \<Rightarrow> nat list \<Rightarrow> nat list" where
  "toLowercaseFrom finalSigma prev [] = []"
| "toLowercaseFrom finalSigma prev (cp # rest) =
     (if cp = 0x3A3 then [if finalSigma prev rest then 0x3C2 else 0x3C3]
      else if cp = 0x130 then [0x69, 0x307]
      else [simpleLowercase cp])
     @ toLowercaseFrom finalSigma (cp # prev) rest"

definition toLowerCase16 :: "(nat list \<Rightarrow> nat list \<Rightarrow> bool) \<Rightarrow> codeUnit list \<Rightarrow> codeUnit list" where
  "toLowerCase16 finalSigma s =
     codePointsToString (toLowercaseFrom finalSigma [] (stringToCodePoints s))"

text \<open>\<^verbatim>\<open>analyzeSpam\<close> on a string of 16-bit code units.\<close>

definition pushIfIncluded16 :: "codeUnit list \<Rightarrow> string \<Rightarrow> string list \<Rightarrow> string list" where
  "pushIfIncluded16 lower word matched =
     (if includesStr lower (unitsOf word) then matched @ [word] else matched)"

definition analyzeSpam16 :: "(nat list \<Rightarrow> nat list \<Rightarrow> bool) \<Rightarrow> codeUnit list \<Rightarrow> analysis" where
  "analyzeSpam16 finalSigma text =
     (let lower = toLowerCase16 finalSigma text;
          matched = fold (pushIfIncluded16 lower) SPAM_KEYWORDS [];
          score = length matched;
          probability = min 1 (of_nat score / 5);
          result = (if probability \<ge> 1 / 2 then ''spam'' else ''not_spam'')
      in \<lparr> result = result, probability = probability, matchedKeywords = matched \<rparr>)"

section \<open>The alert mail\<close>

text \<open>The variables of \<^verbatim>\<open>process.env\<close> that the request path reads; an unset one is \<open>None\<close>.\<close>

record environment =
  ALERT_DEFAULT_TO :: "string option"
  MAIL_FROM :: "string option"

definition envValue :: "string option \<Rightarrow> jsvalue" where
  "envValue v = (case v of None \<Rightarrow> JUndefined | Some s \<Rightarrow> JStr s)"

text \<open>\<^verbatim>\<open>a || b\<close> on values.\<close>

definition orElse :: "jsvalue \<Rightarrow> jsvalue \<Rightarrow> jsvalue" where
  "orElse a b = (if truthy a then a else b)"

text \<open>
  The decision of the request handler:
  \<^verbatim>\<open>(notifyEmail || process.env.ALERT_DEFAULT_TO) && probability * 100 >= 40\<close>, as the
  \<^verbatim>\<open>if\<close> that follows reads it.
\<close>

definition shouldNotify :: "jsvalue \<Rightarrow> string option \<Rightarrow> rat \<Rightarrow> bool" where
  "shouldNotify notifyEmail defaultTo probability' =
     (truthy (orElse notifyEmail (envValue defaultTo)) \<and> probability' * 100 \<ge> 40)"

text \<open>\<^verbatim>\<open>Math.round\<close>: the nearest integer, a half going up.\<close>

definition mathRound :: "rat \<Rightarrow> int" where
  "mathRound x = \<lfloor>x + 1 / 2\<rfloor>"

text \<open>A number in a template literal: its decimal digits.\<close>

function decimal :: "nat \<Rightarrow> string" where
  "decimal n =
     (if n < 10 then [char_of (48 + n)]
      else decimal (n div 10) @ [char_of (48 + n mod 10)])"
  by pat_completeness auto
termination
  by (relation "measure id") auto

definition showInt :: "int \<Rightarrow> string" where
  "showInt i = (if i < 0 then ''-'' @ decimal (nat (- i)) else decimal (nat i))"

text \<open>\<^verbatim>\<open>xs.join(sep)\<close>.\<close>

fun join :: "string \<Rightarrow> string list \<Rightarrow> string" where
  "join sep [] = []"
| "join sep [x] = x"
| "join sep (x # y # ys) = x @ sep @ join sep (y # ys)"

record mailOptions =
  mail_from :: jsvalue
  mail_to :: jsvalue
  mail_subject :: string
  mail_text :: string

definition newline :: string where
  "newline = [CHR 0x0A]"

definition ruler :: string where
  "ruler = ''------------------------------------------------''"

text \<open>The \<^verbatim>\<open>mailOptions\<close> object that \<^verbatim>\<open>sendAlertEmail\<close> builds.\<close>

definition alertMailOptions ::
  "environment \<Rightarrow> jsvalue \<Rightarrow> string \<Rightarrow> rat \<Rightarrow> string list \<Rightarrow> mailOptions" where
  "alertMailOptions env toEmail text probability' matchedKeywords' =
     (let percent = mathRound (probability' * 100)
      in \<lparr> mail_from = envValue (MAIL_FROM env),
           mail_to = orElse toEmail (envValue (ALERT_DEFAULT_TO env)),
           mail_subject = ''[Spam Alert] '' @ showInt percent @ ''% spam detected'',
           mail_text = trim
             (newline @ ''We detected a spammy message.'' @ newline
              @ newline @ ''Spam score: '' @ showInt percent @ ''%'' @ newline
              @ ''Keywords: ''
              @ (if length matchedKeywords' \<noteq> 0 then join '', '' matchedKeywords' else ''none'')
              @ newline
              @ newline @ ''Message:'' @ newline
              @ ruler @ newline
              @ text @ newline
              @ ruler @ newline
              @ ''    '') \<rparr>)"

section \<open>The store, the transport and the console\<close>

text \<open>A document of the \<^verbatim>\<open>SpamCheck\<close> collection.\<close>

record spamCheck =
  doc_id :: nat
  doc_text :: string
  doc_result :: string
  doc_spamProbability :: rat
  doc_matchedKeywords :: "string list"
  doc_createdAt :: int

text \<open>What the handlers write to the console.\<close>

datatype logEvent =
    EmailSent string
  | ErrorSendingAlertEmail string
  | ErrorInCheck
  | ErrorInHistory

text \<open>
  The state around a request: the collection in insertion order, whether the database
  answers, the mails handed to the transport (delivered or not), and the console.
\<close>

record world =
  docs :: "spamCheck list"
  dbUp :: bool
  mailAttempts :: "mailOptions list"
  console :: "logEvent list"

text \<open>
  The mail transport, \<^verbatim>\<open>transporter.sendMail\<close>, is a parameter: it answers a message id
  (\<open>Inr\<close>) or rejects with an error whose message is the \<open>Inl\<close>.
\<close>

type_synonym transport = "mailOptions \<Rightarrow> string + string"

text \<open>
  \<^verbatim>\<open>SpamCheck.create\<close>: the document gets its \<^verbatim>\<open>_id\<close> and, by the schema's default, the
  current time as \<^verbatim>\<open>createdAt\<close>; both are given by the caller of the model. It is
  rejected when the database does not answer. (The schema's \<^verbatim>\<open>required\<close> checks hold for
  every document the handler builds: it gets there with a non-blank text only.)
\<close>

definition create ::
  "nat \<Rightarrow> int \<Rightarrow> string \<Rightarrow> string \<Rightarrow> rat \<Rightarrow> string list \<Rightarrow> world \<Rightarrow> spamCheck option \<times> world" where
  "create newId now text result' spamProbability matchedKeywords' w =
     (if dbUp w
      then (let doc = \<lparr> doc_id = newId, doc_text = text, doc_result = result',
                         doc_spamProbability = spamProbability,
                         doc_matchedKeywords = matchedKeywords', doc_createdAt = now \<rparr>
            in (Some doc, w\<lparr>docs := docs w @ [doc]\<rparr>))
      else (None, w))"

text \<open>
  \<^verbatim>\<open>sendAlertEmail\<close>: \<open>Inl\<close> is the error it throws when the transport rejects; on success
  it logs the message id.
\<close>

definition sendAlertEmail ::
  "environment \<Rightarrow> transport \<Rightarrow> jsvalue \<Rightarrow> string \<Rightarrow> rat \<Rightarrow> string list \<Rightarrow> world
     \<Rightarrow> (string + unit) \<times> world" where
  "sendAlertEmail env sendMail toEmail text probability' matchedKeywords' w =
     (let mailOptions = alertMailOptions env toEmail text probability' matchedKeywords';
          w1 = w\<lparr>mailAttempts := mailAttempts w @ [mailOptions]\<rparr>
      in case sendMail mailOptions of
           Inl err \<Rightarrow> (Inl err, w1)
         | Inr messageId \<Rightarrow> (Inr (), w1\<lparr>console := console w1 @ [EmailSent messageId]\<rparr>))"

section \<open>The request handlers\<close>

datatype 'a response =
    Json 'a
  | Status nat string

record checkBody =
  body_text :: jsvalue
  body_notifyEmail :: jsvalue

record checkReply =
  reply_id :: nat
  reply_result :: string
  reply_spamProbability :: rat
  reply_matchedKeywords :: "string list"
  reply_createdAt :: int

text \<open>
  \<^verbatim>\<open>POST /api/spam/check\<close>. A truthy text that is not a string has no \<^verbatim>\<open>trim\<close> method: the
  call throws, and the outer \<^verbatim>\<open>catch\<close> answers 500, as it does when \<^verbatim>\<open>create\<close> rejects.
  An error of \<^verbatim>\<open>sendAlertEmail\<close> is caught by the inner \<^verbatim>\<open>catch\<close>, which logs it.
\<close>

definition postCheck ::
  "environment \<Rightarrow> transport \<Rightarrow> nat \<Rightarrow> int \<Rightarrow> checkBody \<Rightarrow> world
     \<Rightarrow> checkReply response \<times> world" where
  "postCheck env sendMail newId now body w =
     (let text = body_text body; notifyEmail = body_notifyEmail body
      in if \<not> truthy text then (Status 400 ''Text is required'', w)
         else case text of
           JStr s \<Rightarrow>
             if \<not> truthy (JStr (trim s)) then (Status 400 ''Text is required'', w)
             else
               (let a = analyzeSpam s
                in case create newId now s (result a) (probability a) (matchedKeywords a) w of
                     (None, w1) \<Rightarrow>
                       (Status 500 ''Server error'', w1\<lparr>console := console w1 @ [ErrorInCheck]\<rparr>)
                   | (Some doc, w1) \<Rightarrow>
                       (let w2 =
                              (if shouldNotify notifyEmail (ALERT_DEFAULT_TO env) (probability a)
                               then (case sendAlertEmail env sendMail notifyEmail s
                                            (probability a) (matchedKeywords a) w1 of
                                       (Inl mailErr, w') \<Rightarrow>
                                         w'\<lparr>console := console w' @ [ErrorSendingAlertEmail mailErr]\<rparr>
                                     | (Inr u, w') \<Rightarrow> w')
                               else w1)
                        in (Json \<lparr> reply_id = doc_id doc, reply_result = result a,
                                   reply_spamProbability = probability a,
                                   reply_matchedKeywords = matchedKeywords a,
                                   reply_createdAt = doc_createdAt doc \<rparr>, w2)))
         | other \<Rightarrow> (Status 500 ''Server error'', w\<lparr>console := console w @ [ErrorInCheck]\<rparr>))"

record historyEntry =
  entry_id :: nat
  entry_result :: string
  entry_spamProbability :: rat
  entry_matchedKeywords :: "string list"
  entry_text :: string
  entry_createdAt :: int

text \<open>The callback of \<^verbatim>\<open>docs.map\<close> in the history handler.\<close>

definition historyEntryOf :: "spamCheck \<Rightarrow> historyEntry" where
  "historyEntryOf d =
     \<lparr> entry_id = doc_id d,
       entry_result = doc_result d,
       entry_spamProbability = doc_spamProbability d,
       entry_matchedKeywords = doc_matchedKeywords d,
       entry_text = (if length (doc_text d) > 80 then take 77 (doc_text d) @ ''...''
                     else doc_text d),
       entry_createdAt = doc_createdAt d \<rparr>"

text \<open>
  \<^verbatim>\<open>GET /api/spam/history\<close>: \<^verbatim>\<open>SpamCheck.find().sort({ createdAt: -1 }).limit(10)\<close>, mapped.
  The sort is the database's, not the server's: \<open>sortDesc\<close> is what the database does for
  \<^verbatim>\<open>sort({ createdAt: -1 })\<close>, and is a parameter. The query names one key, \<open>createdAt\<close>.
\<close>

definition getHistory ::
  "(spamCheck list \<Rightarrow> spamCheck list) \<Rightarrow> world \<Rightarrow> historyEntry list response \<times> world" where
  "getHistory sortDesc w =
     (if dbUp w
      then (Json (map historyEntryOf (take 10 (sortDesc (docs w)))), w)
      else (Status 500 ''Server error'', w\<lparr>console := console w @ [ErrorInHistory]\<rparr>))"

section \<open>The words of the specification\<close>

text \<open>
  The case of letters, for the letters of the lexicon: each basic Latin letter has a class
  holding its capital and its small form. The class of \<open>k\<close> also holds KELVIN SIGN, whose
  lowercase in Unicode is \<open>k\<close>. No other unit is a case form of a basic Latin letter: LONG
  S and DOTLESS I are small letters of their own, and the lowercase of CAPITAL I WITH DOT
  ABOVE is not the letter \<open>i\<close> but \<open>i\<close> with a combining dot.
\<close>

definition KELVIN_SIGN :: codeUnit where
  "KELVIN_SIGN = 0x212A"

definition caseClasses :: "codeUnit list list" where
  "caseClasses =
     [unitsOf ''Aa'', unitsOf ''Bb'', unitsOf ''Cc'', unitsOf ''Dd'', unitsOf ''Ee'',
      unitsOf ''Ff'', unitsOf ''Gg'', unitsOf ''Hh'', unitsOf ''Ii'', unitsOf ''Jj'',
      KELVIN_SIGN # unitsOf ''Kk'', unitsOf ''Ll'', unitsOf ''Mm'', unitsOf ''Nn'',
      unitsOf ''Oo'', unitsOf ''Pp'', unitsOf ''Qq'', unitsOf ''Rr'', unitsOf ''Ss'',
      unitsOf ''Tt'', unitsOf ''Uu'', unitsOf ''Vv'', unitsOf ''Ww'', unitsOf ''Xx'',
      unitsOf ''Yy'', unitsOf ''Zz'']"

definition sameIgnoringCase :: "codeUnit \<Rightarrow> codeUnit \<Rightarrow> bool" where
  "sameIgnoringCase u v = (u = v \<or> list_ex (\<lambda>cls. u \<in> set cls \<and> v \<in> set cls) caseClasses)"

text \<open>
  An indicator occurs in a text as a case-insensitive substring: some stretch of the text
  is the indicator, unit for unit, up to the case of its letters.
\<close>

definition occursIgnoringCase :: "string \<Rightarrow> codeUnit list \<Rightarrow> bool" where
  "occursIgnoringCase w text
     = (\<exists>s. sublist s text \<and> list_all2 sameIgnoringCase s (unitsOf w))"

section \<open>Example inputs\<close>

definition exampleDoc :: "nat \<Rightarrow> string \<Rightarrow> int \<Rightarrow> spamCheck" where
  "exampleDoc i t c =
     \<lparr> doc_id = i, doc_text = t, doc_result = result (analyzeSpam t),
       doc_spamProbability = probability (analyzeSpam t),
       doc_matchedKeywords = matchedKeywords (analyzeSpam t), doc_createdAt = c \<rparr>"

definition world0 :: world where
  "world0 = \<lparr> docs = [], dbUp = True, mailAttempts = [], console = [] \<rparr>"

definition env0 :: environment where
  "env0 = \<lparr> ALERT_DEFAULT_TO = None, MAIL_FROM = Some ''detector@example.org'' \<rparr>"

definition bodyFreeCash :: checkBody where
  "bodyFreeCash = \<lparr> body_text = JStr ''Free cash'', body_notifyEmail = JStr ''a@b.c'' \<rparr>"

definition refuse :: transport where
  "refuse m = Inl ''ECONNREFUSED''"

definition longText :: string where
  "longText = replicate 100 (CHR ''x'')"

definition shortText :: string where
  "shortText = replicate 50 (CHR ''x'')"

section \<open>Keys for comparing a text with its lowered form\<close>

text \<open>
  A unit of the basic Latin block is its own key and every other unit has none. The key
  that a unit of the text has after lowering, and the keys of the units that the lowering
  writes for it.
\<close>

definition basicLatinOf :: "codeUnit \<Rightarrow> nat option" where
  "basicLatinOf v = (if unat v < 128 then Some (unat v) else None)"

definition loweredBasicLatinOf :: "codeUnit \<Rightarrow> nat option" where
  "loweredBasicLatinOf u =
     (if unat u < 128 then Some (if 65 \<le> unat u \<and> unat u \<le> 90 then unat u + 32 else unat u)
      else if unat u = 0x212A then Some 0x6B else None)"

definition loweredKeys :: "codeUnit \<Rightarrow> nat option list" where
  "loweredKeys u = (if unat u = 0x130 then [Some 0x69, None] else [loweredBasicLatinOf u])"

definition lexiconAlphabet :: string where
  "lexiconAlphabet = '' abcdefghijklmnopqrstuvwxyz''"

section \<open>Facts about strings\<close>

lemma startsWith_iff_prefix: "startsWith s w \<longleftrightarrow> prefix w s"
  by (induction s w rule: startsWith.induct) auto

lemma includesStr_iff_sublist: "includesStr s w \<longleftrightarrow> sublist w s"
  by (induction s) (simp_all add: startsWith_iff_prefix sublist_Cons_right)

lemma includesStr_iff_append:
  "includesStr s w \<longleftrightarrow> (\<exists>pre post. s = pre @ w @ post)"
  by (simp add: includesStr_iff_sublist sublist_def)

section \<open>Facts about the classifier\<close>

lemma fold_pushIfIncluded:
  "fold (pushIfIncluded lower) ws acc = acc @ filter (includesStr lower) ws"
  by (induction ws arbitrary: acc) (simp_all add: pushIfIncluded_def)

lemma matchedKeywords_filter:
  "matchedKeywords (analyzeSpam text) = filter (includesStr (toLowerCase text)) SPAM_KEYWORDS"
  by (simp add: analyzeSpam_def Let_def fold_pushIfIncluded)

lemma probability_analyzeSpam:
  "probability (analyzeSpam text) = min 1 (of_nat (length (matchedKeywords (analyzeSpam text))) / 5)"
  by (simp add: analyzeSpam_def Let_def)

lemma result_analyzeSpam:
  "result (analyzeSpam text) =
     (if probability (analyzeSpam text) \<ge> 1 / 2 then ''spam'' else ''not_spam'')"
  by (simp only: analyzeSpam_def Let_def analysis.select_convs)

lemma distinct_SPAM_KEYWORDS: "distinct SPAM_KEYWORDS"
  by (simp add: SPAM_KEYWORDS_def)

lemma length_SPAM_KEYWORDS: "length SPAM_KEYWORDS = 12"
  by (simp add: SPAM_KEYWORDS_def)

text \<open>
  Claim C1. For every text the probability is \<open>min (1, n / 5)\<close>, where \<open>n\<close> is the number of
  matched indicators (the length of \<open>matchedKeywords\<close>, which is the number of lexicon
  entries that the lowered text holds); so it lies between zero and one, and it is one
  exactly when at least five indicators matched.
\<close>

theorem C1_probability_min_bounds:
  "probability (analyzeSpam text)
     = min 1 (of_nat (length (matchedKeywords (analyzeSpam text))) / 5)
   \<and> length (matchedKeywords (analyzeSpam text))
     = card {w \<in> set SPAM_KEYWORDS. includesStr (toLowerCase text) w}
   \<and> 0 \<le> probability (analyzeSpam text)
   \<and> probability (analyzeSpam text) \<le> 1
   \<and> (probability (analyzeSpam text) = 1
        \<longleftrightarrow> 5 \<le> length (matchedKeywords (analyzeSpam text)))"
proof -
  let ?n = "length (matchedKeywords (analyzeSpam text))"
  have p: "probability (analyzeSpam text) = min 1 (of_nat ?n / 5)"
    by (rule probability_analyzeSpam)
  have "distinct (filter (includesStr (toLowerCase text)) SPAM_KEYWORDS)"
    using distinct_SPAM_KEYWORDS by simp
  then have "length (filter (includesStr (toLowerCase text)) SPAM_KEYWORDS)
      = card (set (filter (includesStr (toLowerCase text)) SPAM_KEYWORDS))"
    by (rule distinct_card [symmetric])
  then have c: "?n = card {w \<in> set SPAM_KEYWORDS. includesStr (toLowerCase text) w}"
    by (simp add: matchedKeywords_filter)
  have lo: "0 \<le> min (1::rat) (of_nat ?n / 5)"
    by simp
  have hi: "min (1::rat) (of_nat ?n / 5) \<le> 1"
    by simp
  have one: "min (1::rat) (of_nat ?n / 5) = 1 \<longleftrightarrow> 5 \<le> ?n"
  proof -
    have "min (1::rat) (of_nat ?n / 5) = 1 \<longleftrightarrow> (1::rat) \<le> of_nat ?n / 5"
      by (simp add: min_def)
    also have "\<dots> \<longleftrightarrow> (5::rat) \<le> of_nat ?n"
      by simp
    also have "\<dots> \<longleftrightarrow> 5 \<le> ?n"
      by (metis of_nat_le_iff of_nat_numeral)
    finally show ?thesis .
  qed
  show ?thesis
    using p c lo hi one by simp
qed

text \<open>
  Claim C2. In every record the classifier produces, the verdict is \<open>spam\<close> exactly when
  the probability is at least one half, and \<open>not_spam\<close> exactly when it is below.
\<close>

theorem C2_verdict_iff_probability:
  "(result (analyzeSpam text) = ''spam'' \<longleftrightarrow> probability (analyzeSpam text) \<ge> 1 / 2)
   \<and> (result (analyzeSpam text) = ''not_spam'' \<longleftrightarrow> probability (analyzeSpam text) < 1 / 2)"
proof (cases "probability (analyzeSpam text) \<ge> 1 / 2")
  case True
  then have "result (analyzeSpam text) = ''spam''"
    by (simp only: result_analyzeSpam if_True)
  with True show ?thesis by simp
next
  case False
  then have "result (analyzeSpam text) = ''not_spam''"
    by (simp only: result_analyzeSpam if_False)
  with False show ?thesis by simp
qed

lemma sublist_map_iff:
  "sublist w (map f xs) \<longleftrightarrow> (\<exists>s. sublist s xs \<and> map f s = w)"
proof
  assume "sublist w (map f xs)"
  then obtain pre post where "map f xs = pre @ w @ post"
    by (auto simp: sublist_def)
  then obtain a r where ar: "xs = a @ r" "map f r = w @ post"
    by (metis map_eq_append_conv)
  then obtain s b where "r = s @ b" "map f s = w"
    by (metis map_eq_append_conv)
  with ar have "xs = a @ s @ b \<and> map f s = w"
    by simp
  then show "\<exists>s. sublist s xs \<and> map f s = w"
    by (auto simp: sublist_def)
next
  assume "\<exists>s. sublist s xs \<and> map f s = w"
  then obtain s a b where "xs = a @ s @ b" "map f s = w"
    by (auto simp: sublist_def)
  then have "map f xs = map f a @ w @ map f b"
    by simp
  then show "sublist w (map f xs)"
    unfolding sublist_def by blast
qed

section \<open>Facts about the lowercase table\<close>

lemma lookupLower_rows:
  assumes "list_all (\<lambda>(lo, hi, st, d). Q lo hi st d) rs"
    and "\<And>lo hi st d. Q lo hi st d \<Longrightarrow> lo \<le> cp \<Longrightarrow> cp \<le> hi \<Longrightarrow> (cp - lo) mod st = 0
           \<Longrightarrow> P (nat (int cp + d))"
    and "list_all (\<lambda>(lo, hi, st, d). \<not> (lo \<le> cp \<and> cp \<le> hi \<and> (cp - lo) mod st = 0)) rs \<Longrightarrow> P cp"
  shows "P (lookupLower rs cp)"
  using assms
proof (induction rs)
  case Nil
  then show ?case by simp
next
  case (Cons r rs)
  obtain lo hi st d where r: "r = (lo, hi, st, d)"
    by (cases r) auto
  show ?case
  proof (cases "lo \<le> cp \<and> cp \<le> hi \<and> (cp - lo) mod st = 0")
    case True
    with Cons.prems(1,2) r show ?thesis
      by auto
  next
    case False
    have "P (lookupLower rs cp)"
    proof (rule Cons.IH)
      show "list_all (\<lambda>(lo, hi, st, d). Q lo hi st d) rs"
        using Cons.prems(1) by simp
      show "\<And>lo hi st d. Q lo hi st d \<Longrightarrow> lo \<le> cp \<Longrightarrow> cp \<le> hi \<Longrightarrow> (cp - lo) mod st = 0
           \<Longrightarrow> P (nat (int cp + d))"
        by (rule Cons.prems(2))
      show "list_all (\<lambda>(lo, hi, st, d). \<not> (lo \<le> cp \<and> cp \<le> hi \<and> (cp - lo) mod st = 0)) rs
           \<Longrightarrow> P cp"
        using Cons.prems(3) False r by simp
    qed
    moreover from False have "lookupLower ((lo, hi, st, d) # rs) cp = lookupLower rs cp"
      by (simp only: lookupLower.simps if_False)
    ultimately show ?thesis
      by (simp only: r)
  qed
qed

lemma rows_latin1:
  "list_all (\<lambda>(lo, hi, st, d). 256 \<le> lo \<or> (st = 1 \<and> d = 32
      \<and> ((lo = 65 \<and> hi = 90) \<or> (lo = 192 \<and> hi = 214) \<or> (lo = 216 \<and> hi = 222)))) lowerRanges"
  by (simp add: lowerRanges_def)

lemma rows_latin1_present:
  "(65, 90, 1, 32) \<in> set lowerRanges" "(192, 214, 1, 32) \<in> set lowerRanges"
  "(216, 222, 1, 32) \<in> set lowerRanges"
  by (simp_all add: lowerRanges_def)

lemma rows_above_ascii:
  "list_all (\<lambda>(lo, hi, st, d). hi < 128 \<or> (lo = 0x212A \<and> hi = 0x212A) \<or> 128 \<le> int lo + d)
     lowerRanges"
  by (simp add: lowerRanges_def)

lemma rows_bmp:
  "list_all (\<lambda>(lo, hi, st, d). 0x10000 \<le> lo \<or> int hi + d < 0x10000) lowerRanges"
  by (simp add: lowerRanges_def)

lemma rows_astral:
  "list_all (\<lambda>(lo, hi, st, d). hi < 0x10000 \<or> (0x10000 \<le> int lo + d \<and> int hi + d < 0x110000))
     lowerRanges"
  by (simp add: lowerRanges_def)

lemma simpleLowercase_latin1:
  assumes "cp < 256"
  shows "simpleLowercase cp
     = (if (65 \<le> cp \<and> cp \<le> 90) \<or> (192 \<le> cp \<and> cp \<le> 222 \<and> cp \<noteq> 215) then cp + 32 else cp)"
  unfolding simpleLowercase_def
proof (rule lookupLower_rows [OF rows_latin1])
  fix lo hi st :: nat and d :: int
  assume "256 \<le> lo \<or> (st = 1 \<and> d = 32
      \<and> ((lo = 65 \<and> hi = 90) \<or> (lo = 192 \<and> hi = 214) \<or> (lo = 216 \<and> hi = 222)))"
    and "lo \<le> cp" and "cp \<le> hi"
  with assms show "nat (int cp + d)
     = (if (65 \<le> cp \<and> cp \<le> 90) \<or> (192 \<le> cp \<and> cp \<le> 222 \<and> cp \<noteq> 215) then cp + 32 else cp)"
    by auto
next
  assume none: "list_all (\<lambda>(lo, hi, st, d). \<not> (lo \<le> cp \<and> cp \<le> hi \<and> (cp - lo) mod st = 0))
      lowerRanges"
  have "\<not> (65 \<le> cp \<and> cp \<le> 90)" "\<not> (192 \<le> cp \<and> cp \<le> 214)" "\<not> (216 \<le> cp \<and> cp \<le> 222)"
    using none rows_latin1_present by (auto simp: list_all_iff)
  then show "cp = (if (65 \<le> cp \<and> cp \<le> 90) \<or> (192 \<le> cp \<and> cp \<le> 222 \<and> cp \<noteq> 215) then cp + 32 else cp)"
    by auto
qed

lemma simpleLowercase_ascii:
  assumes "cp < 128"
  shows "simpleLowercase cp = (if 65 \<le> cp \<and> cp \<le> 90 then cp + 32 else cp)"
  using assms by (simp add: simpleLowercase_latin1)

lemma simpleLowercase_kelvin: "simpleLowercase 0x212A = 0x6B"
  by (simp add: simpleLowercase_def lowerRanges_def)

lemma simpleLowercase_above_ascii:
  assumes "128 \<le> cp" and "cp \<noteq> 0x212A"
  shows "128 \<le> simpleLowercase cp"
  unfolding simpleLowercase_def
proof (rule lookupLower_rows [OF rows_above_ascii])
  fix lo hi st :: nat and d :: int
  assume "hi < 128 \<or> (lo = 0x212A \<and> hi = 0x212A) \<or> 128 \<le> int lo + d"
    and "lo \<le> cp" and "cp \<le> hi"
  with assms show "128 \<le> nat (int cp + d)"
    by auto
next
  show "128 \<le> cp"
    by (rule assms(1))
qed

lemma simpleLowercase_bmp:
  assumes "cp < 0x10000"
  shows "simpleLowercase cp < 0x10000"
  unfolding simpleLowercase_def
proof (rule lookupLower_rows [OF rows_bmp])
  fix lo hi st :: nat and d :: int
  assume "0x10000 \<le> lo \<or> int hi + d < 0x10000" and "lo \<le> cp" and "cp \<le> hi"
  with assms show "nat (int cp + d) < 0x10000"
    by auto
next
  show "cp < 0x10000"
    by (rule assms)
qed

lemma simpleLowercase_astral:
  assumes "0x10000 \<le> cp" and "cp < 0x110000"
  shows "0x10000 \<le> simpleLowercase cp \<and> simpleLowercase cp < 0x110000"
  unfolding simpleLowercase_def
proof (rule lookupLower_rows [OF rows_astral])
  fix lo hi st :: nat and d :: int
  assume "hi < 0x10000 \<or> (0x10000 \<le> int lo + d \<and> int hi + d < 0x110000)"
    and "lo \<le> cp" and "cp \<le> hi"
  with assms show "0x10000 \<le> nat (int cp + d) \<and> nat (int cp + d) < 0x110000"
    by auto
next
  show "0x10000 \<le> cp \<and> cp < 0x110000"
    using assms by simp
qed

section \<open>Facts about the case of letters\<close>

lemma lexicon_letters:
  "list_all (\<lambda>c. \<forall>u. loweredBasicLatinOf u = basicLatinOf (unitOf c) \<longleftrightarrow> sameIgnoringCase u (unitOf c))
     '' abcdefghijklmnopqrstuvwxyz''"
  apply (simp add: loweredBasicLatinOf_def basicLatinOf_def sameIgnoringCase_def caseClasses_def
      unitsOf_def unitOf_def KELVIN_SIGN_def word_unat_eq_iff)
  apply (intro conjI allI)
  apply arith+
  done

section \<open>Facts about lowering\<close>

lemma unat_unit_less: "unat (u :: codeUnit) < 0x10000"
  using unsigned_less [of u] by simp

lemma unat_of_nat_unit: "n < 0x10000 \<Longrightarrow> unat (of_nat n :: codeUnit) = n"
  by (simp add: unat_of_nat)

lemma codePointsToString_append:
  "codePointsToString (xs @ ys) = codePointsToString xs @ codePointsToString ys"
  by (simp add: codePointsToString_def)

lemma keys_encode_bmp:
  assumes "n < 0x10000"
  shows "map basicLatinOf (utf16Encode n) = [if n < 128 then Some n else None]"
proof -
  have "unat (of_nat n :: codeUnit) = n"
    using assms by (rule unat_of_nat_unit)
  then show ?thesis
    using assms by (simp add: utf16Encode_def basicLatinOf_def)
qed

lemma keys_encode_astral:
  assumes "0x10000 \<le> n" and "n < 0x110000"
  shows "map basicLatinOf (utf16Encode n) = [None, None]"
proof -
  define h where "h = 0xD800 + (n - 0x10000) div 0x400"
  define l where "l = 0xDC00 + (n - 0x10000) mod 0x400"
  have hb: "128 \<le> h" "h < 0x10000"
    using assms by (simp_all add: h_def)
  have lb: "128 \<le> l" "l < 0x10000"
    by (simp_all add: l_def)
  have hu: "unat (of_nat h :: codeUnit) = h" and lu: "unat (of_nat l :: codeUnit) = l"
    using hb lb by (simp_all add: unat_of_nat_unit)
  have "utf16Encode n = [of_nat h, of_nat l]"
    using assms by (simp add: utf16Encode_def h_def l_def)
  then show ?thesis
    using hb lb by (simp add: basicLatinOf_def hu lu)
qed

lemma codePointsToString_one: "codePointsToString [n] = utf16Encode n"
  by (simp add: codePointsToString_def)

lemma codePointsToString_two: "codePointsToString [m, n] = utf16Encode m @ utf16Encode n"
  by (simp add: codePointsToString_def)

text \<open>One unit that is no half of a pair.\<close>

lemma lowered_single:
  "map basicLatinOf (codePointsToString
      (if unat u = 0x3A3 then [if b then 0x3C2 else 0x3C3]
       else if unat u = 0x130 then [0x69, 0x307]
       else [simpleLowercase (unat u)]))
   = loweredKeys u"
proof -
  consider "unat u = 0x3A3" | "unat u = 0x130" | "unat u < 128"
    | "unat u = 0x212A" | "128 \<le> unat u" "unat u \<noteq> 0x212A" "unat u \<noteq> 0x3A3" "unat u \<noteq> 0x130"
    by linarith
  then show ?thesis
  proof cases
    case 1
    have "map basicLatinOf (utf16Encode 0x3C2) = [None]" "map basicLatinOf (utf16Encode 0x3C3) = [None]"
      by (simp_all add: keys_encode_bmp)
    with 1 show ?thesis
      by (simp add: codePointsToString_one loweredKeys_def loweredBasicLatinOf_def)
  next
    case 2
    have "map basicLatinOf (utf16Encode 0x69) = [Some 0x69]" "map basicLatinOf (utf16Encode 0x307) = [None]"
      by (simp_all add: keys_encode_bmp)
    with 2 show ?thesis
      by (simp add: codePointsToString_two loweredKeys_def)
  next
    case 3
    define l where "l = simpleLowercase (unat u)"
    have l: "l = (if 65 \<le> unat u \<and> unat u \<le> 90 then unat u + 32 else unat u)"
      unfolding l_def using 3 by (rule simpleLowercase_ascii)
    with 3 have "l < 128"
      by simp
    then have "map basicLatinOf (utf16Encode l) = [Some l]"
      by (simp add: keys_encode_bmp)
    with 3 l show ?thesis
      by (simp add: codePointsToString_one loweredKeys_def loweredBasicLatinOf_def flip: l_def)
  next
    case 4
    have "map basicLatinOf (utf16Encode 0x6B) = [Some 0x6B]"
      by (simp add: keys_encode_bmp)
    with 4 show ?thesis
      by (simp add: codePointsToString_one loweredKeys_def loweredBasicLatinOf_def
          simpleLowercase_kelvin)
  next
    case 5
    define l where "l = simpleLowercase (unat u)"
    have lt: "l < 0x10000"
      unfolding l_def by (rule simpleLowercase_bmp) (rule unat_unit_less)
    have ge: "128 \<le> l"
      unfolding l_def using 5(1,2) by (rule simpleLowercase_above_ascii)
    have "map basicLatinOf (utf16Encode l) = [None]"
      using lt ge by (simp add: keys_encode_bmp)
    with 5 show ?thesis
      by (simp add: codePointsToString_one loweredKeys_def loweredBasicLatinOf_def flip: l_def)
  qed
qed

text \<open>A surrogate pair.\<close>

lemma lowered_pair:
  assumes "isLeadSurrogate u" and "isTrailSurrogate v"
  shows "map basicLatinOf (codePointsToString
      (let cp = 0x10000 + (unat u - 0xD800) * 0x400 + (unat v - 0xDC00)
       in if cp = 0x3A3 then [if b then 0x3C2 else 0x3C3]
          else if cp = 0x130 then [0x69, 0x307]
          else [simpleLowercase cp]))
   = loweredKeys u @ loweredKeys v"
proof -
  define cp where "cp = 0x10000 + (unat u - 0xD800) * 0x400 + (unat v - 0xDC00)"
  have u: "0xD800 \<le> unat u" "unat u \<le> 0xDBFF" and v: "0xDC00 \<le> unat v" "unat v \<le> 0xDFFF"
    using assms by (simp_all add: isLeadSurrogate_def isTrailSurrogate_def)
  have lo: "0x10000 \<le> cp"
    by (simp add: cp_def)
  have hi: "cp < 0x110000"
    using u v by (simp add: cp_def)
  have "0x10000 \<le> simpleLowercase cp \<and> simpleLowercase cp < 0x110000"
    using lo hi by (rule simpleLowercase_astral)
  then have enc: "map basicLatinOf (utf16Encode (simpleLowercase cp)) = [None, None]"
    by (simp add: keys_encode_astral)
  have keys: "loweredKeys u @ loweredKeys v = [None, None]"
    using u v by (simp add: loweredKeys_def loweredBasicLatinOf_def)
  have ne: "cp \<noteq> 0x3A3" "cp \<noteq> 0x130"
    using lo by simp_all
  show ?thesis
    using ne enc keys by (simp add: Let_def codePointsToString_one flip: cp_def)
qed

lemma lowered_keys:
  "map basicLatinOf (codePointsToString (toLowercaseFrom fs prev (stringToCodePoints s)))
     = concat (map loweredKeys s)"
proof (induction s arbitrary: prev rule: stringToCodePoints.induct)
  case 1
  then show ?case
    by (simp add: codePointsToString_def)
next
  case (2 u)
  show ?case
    using lowered_single [of u "fs prev []"]
    by (simp add: codePointsToString_append)
next
  case (3 u v us)
  show ?case
  proof (cases "isLeadSurrogate u \<and> isTrailSurrogate v")
    case True
    let ?cp = "0x10000 + (unat u - 0xD800) * 0x400 + (unat v - 0xDC00)"
    have step: "stringToCodePoints (u # v # us) = ?cp # stringToCodePoints us"
      by (simp only: stringToCodePoints.simps True simp_thms if_True)
    have "map basicLatinOf (codePointsToString
        (toLowercaseFrom fs prev (?cp # stringToCodePoints us)))
      = (loweredKeys u @ loweredKeys v)
        @ map basicLatinOf (codePointsToString
            (toLowercaseFrom fs (?cp # prev) (stringToCodePoints us)))"
      using lowered_pair [of u v "fs prev (stringToCodePoints us)"] True
      by (simp only: toLowercaseFrom.simps codePointsToString_append map_append Let_def)
    also have "\<dots> = (loweredKeys u @ loweredKeys v) @ concat (map loweredKeys us)"
      using "3.IH"(1) [OF True] by simp
    finally show ?thesis
      by (simp only: step) simp
  next
    case False
    have step: "stringToCodePoints (u # v # us) = unat u # stringToCodePoints (v # us)"
      by (simp only: stringToCodePoints.simps False simp_thms if_False)
    have "map basicLatinOf (codePointsToString
        (toLowercaseFrom fs prev (unat u # stringToCodePoints (v # us))))
      = loweredKeys u
        @ map basicLatinOf (codePointsToString
            (toLowercaseFrom fs (unat u # prev) (stringToCodePoints (v # us))))"
      using lowered_single [of u "fs prev (stringToCodePoints (v # us))"]
      by (simp only: toLowercaseFrom.simps codePointsToString_append map_append)
    also have "\<dots> = loweredKeys u @ concat (map loweredKeys (v # us))"
      using "3.IH"(2) [OF False] by simp
    finally show ?thesis
      by (simp only: step) simp
  qed
qed

lemma lexicon_letters_alphabet:
  "\<forall>c \<in> set lexiconAlphabet. \<forall>u. loweredBasicLatinOf u = basicLatinOf (unitOf c)
      \<longleftrightarrow> sameIgnoringCase u (unitOf c)"
  using lexicon_letters by (simp only: list_all_iff lexiconAlphabet_def)

lemma startsWith_basicLatin:
  assumes "\<forall>v \<in> set w. unat v < 128"
  shows "startsWith (map basicLatinOf s) (map basicLatinOf w) = startsWith s w"
  using assms
proof (induction s w rule: startsWith.induct)
  case (3 d s c w)
  from "3.prems" have "unat c < 128"
    by simp
  then have "basicLatinOf d = basicLatinOf c \<longleftrightarrow> d = c"
    by (auto simp: basicLatinOf_def word_unat_eq_iff split: if_splits)
  with 3 show ?case
    by simp
qed simp_all

lemma includesStr_basicLatin:
  assumes "\<forall>v \<in> set w. unat v < 128"
  shows "includesStr (map basicLatinOf s) (map basicLatinOf w) = includesStr s w"
proof (induction s)
  case Nil
  then show ?case by simp
next
  case (Cons d s)
  have "startsWith (map basicLatinOf (d # s)) (map basicLatinOf w) = startsWith (d # s) w"
    using assms by (rule startsWith_basicLatin)
  with Cons show ?case
    by simp
qed

lemma startsWith_loweredKeys:
  assumes "None \<notin> set k" and "k = [] \<or> last k \<noteq> Some 0x69"
  shows "startsWith (concat (map loweredKeys s)) k = startsWith (map loweredBasicLatinOf s) k"
  using assms
proof (induction s arbitrary: k)
  case Nil
  then show ?case by simp
next
  case (Cons u s)
  show ?case
  proof (cases k)
    case Nil
    then show ?thesis by simp
  next
    case k: (Cons c k')
    from Cons.prems(1) k have c: "c \<noteq> None" and k': "None \<notin> set k'"
      by (cases c; simp)+
    from Cons.prems(2) k have last': "k' = [] \<or> last k' \<noteq> Some 0x69"
      by (auto split: if_splits)
    show ?thesis
    proof (cases "unat u = 0x130")
      case True
      then have keys: "loweredKeys u = [Some 0x69, None]" and one: "loweredBasicLatinOf u = None"
        by (simp_all add: loweredKeys_def loweredBasicLatinOf_def)
      have "\<not> startsWith (Some 0x69 # None # concat (map loweredKeys s)) (c # k')"
      proof (cases k')
        case Nil
        with Cons.prems(2) k show ?thesis
          by auto
      next
        case (Cons d k'')
        with k' show ?thesis
          by auto
      qed
      moreover have "\<not> startsWith (None # map loweredBasicLatinOf s) (c # k')"
        using c by auto
      moreover have "concat (map loweredKeys (u # s))
          = Some 0x69 # None # concat (map loweredKeys s)"
        by (simp add: keys)
      moreover have "map loweredBasicLatinOf (u # s) = None # map loweredBasicLatinOf s"
        by (simp add: one)
      ultimately show ?thesis
        unfolding k by (simp only: simp_thms)
    next
      case False
      then have keys: "loweredKeys u = [loweredBasicLatinOf u]"
        by (simp add: loweredKeys_def)
      show ?thesis
        using Cons.IH [OF k' last'] by (simp add: k keys)
    qed
  qed
qed

lemma includesStr_loweredKeys:
  assumes "None \<notin> set k" and "k \<noteq> []" and "last k \<noteq> Some 0x69"
  shows "includesStr (concat (map loweredKeys s)) k = includesStr (map loweredBasicLatinOf s) k"
proof (induction s)
  case Nil
  then show ?case by simp
next
  case (Cons u s)
  have sw: "startsWith (concat (map loweredKeys (u # s))) k
      = startsWith (map loweredBasicLatinOf (u # s)) k"
    using assms(1,3) by (intro startsWith_loweredKeys) simp_all
  obtain c k' where k: "k = c # k'"
    using assms(2) by (cases k) auto
  with assms(1) have c: "c \<noteq> None"
    by (cases c) simp_all
  show ?case
  proof (cases "unat u = 0x130")
    case True
    then have keys: "loweredKeys u = [Some 0x69, None]"
      by (simp add: loweredKeys_def)
    have "\<not> startsWith (None # concat (map loweredKeys s)) k"
      using c by (simp add: k) auto
    with sw Cons show ?thesis
      by (simp add: keys)
  next
    case False
    then have keys: "loweredKeys u = [loweredBasicLatinOf u]"
      by (simp add: loweredKeys_def)
    from sw Cons show ?thesis
      by (simp add: keys)
  qed
qed

lemma map_eq_map_iff_list_all2:
  "map f xs = map g ys \<longleftrightarrow> list_all2 (\<lambda>x y. f x = g y) xs ys"
proof -
  have "map f xs = map g ys \<longleftrightarrow> list_all2 (=) (map f xs) (map g ys)"
    by (simp add: list.rel_eq)
  then show ?thesis
    by (simp add: list.rel_map)
qed

lemma alphabet_units:
  "list_all (\<lambda>c. unat (unitOf c) < 128 \<and> (basicLatinOf (unitOf c) = Some 0x69 \<longrightarrow> c = CHR ''i''))
     lexiconAlphabet"
  by (simp add: unitOf_def basicLatinOf_def lexiconAlphabet_def)

lemma lexicon_shape:
  "list_all (\<lambda>w. w \<noteq> [] \<and> last w \<noteq> CHR ''i'' \<and> set w \<subseteq> set lexiconAlphabet)
     SPAM_KEYWORDS"
  by (simp add: SPAM_KEYWORDS_def lexiconAlphabet_def)

lemma includes_lowered_iff_occurs:
  assumes "w \<in> set SPAM_KEYWORDS"
  shows "includesStr (toLowerCase16 fs txt) (unitsOf w) \<longleftrightarrow> occursIgnoringCase w txt"
proof -
  let ?k = "map basicLatinOf (unitsOf w)"
  from assms lexicon_shape
  have w: "w \<noteq> []" "last w \<noteq> CHR ''i''" "set w \<subseteq> set lexiconAlphabet"
    by (auto simp: list_all_iff)
  have small: "\<forall>v \<in> set (unitsOf w). unat v < 128"
    using w(3) alphabet_units by (auto simp: list_all_iff unitsOf_def)
  then have some: "None \<notin> set ?k"
    by (auto simp: basicLatinOf_def)
  have ne: "?k \<noteq> []"
    using w(1) by (simp add: unitsOf_def)
  have "last w \<in> set lexiconAlphabet"
    using w(1,3) by (meson last_in_set subsetD)
  then have "basicLatinOf (unitOf (last w)) \<noteq> Some 0x69"
    using w(2) alphabet_units by (auto simp: list_all_iff)
  then have last: "last ?k \<noteq> Some 0x69"
    using w(1) by (simp add: unitsOf_def last_map)
  have same: "loweredBasicLatinOf u = basicLatinOf v \<longleftrightarrow> sameIgnoringCase u v"
    if "v \<in> set (unitsOf w)" for u v
  proof -
    from that obtain c where "c \<in> set w" "v = unitOf c"
      by (auto simp: unitsOf_def)
    with w(3) have "c \<in> set lexiconAlphabet"
      by auto
    with lexicon_letters_alphabet have "\<forall>u. loweredBasicLatinOf u = basicLatinOf (unitOf c)
        \<longleftrightarrow> sameIgnoringCase u (unitOf c)"
      by (rule bspec)
    with \<open>v = unitOf c\<close> show ?thesis
      by simp
  qed
  have "includesStr (toLowerCase16 fs txt) (unitsOf w)
      \<longleftrightarrow> includesStr (map basicLatinOf (toLowerCase16 fs txt)) ?k"
    using small by (simp add: includesStr_basicLatin)
  also have "\<dots> \<longleftrightarrow> includesStr (concat (map loweredKeys txt)) ?k"
    by (simp add: toLowerCase16_def lowered_keys)
  also have "\<dots> \<longleftrightarrow> includesStr (map loweredBasicLatinOf txt) ?k"
    using some ne last by (rule includesStr_loweredKeys)
  also have "\<dots> \<longleftrightarrow> (\<exists>s. sublist s txt \<and> map loweredBasicLatinOf s = ?k)"
    by (simp add: includesStr_iff_sublist sublist_map_iff)
  also have "\<dots> \<longleftrightarrow> (\<exists>s. sublist s txt
      \<and> list_all2 (\<lambda>u v. loweredBasicLatinOf u = basicLatinOf v) s (unitsOf w))"
    by (simp add: map_eq_map_iff_list_all2)
  also have "\<dots> \<longleftrightarrow> (\<exists>s. sublist s txt \<and> list_all2 sameIgnoringCase s (unitsOf w))"
  proof -
    have "list_all2 (\<lambda>u v. loweredBasicLatinOf u = basicLatinOf v) s (unitsOf w)
        = list_all2 sameIgnoringCase s (unitsOf w)" for s
      by (rule list.rel_cong) (simp_all add: same)
    then show ?thesis
      by simp
  qed
  finally show ?thesis
    by (simp add: occursIgnoringCase_def)
qed

lemma fold_pushIfIncluded16:
  "fold (pushIfIncluded16 lower) ws acc = acc @ filter (\<lambda>w. includesStr lower (unitsOf w)) ws"
  by (induction ws arbitrary: acc) (simp_all add: pushIfIncluded16_def)

lemma matchedKeywords16_filter:
  "matchedKeywords (analyzeSpam16 fs txt)
     = filter (\<lambda>w. includesStr (toLowerCase16 fs txt) (unitsOf w)) SPAM_KEYWORDS"
  by (simp add: analyzeSpam16_def Let_def fold_pushIfIncluded16)

section \<open>The two classifiers on Latin-1 strings\<close>

lemma unat_unitOf: "unat (unitOf c) = of_char c"
proof -
  have "(of_char c :: nat) < 0x10000"
    using nat_of_char_less_256 [of c] by linarith
  then show ?thesis
    by (simp add: unitOf_def unat_of_nat_unit)
qed

lemma unitOf_inject: "unitOf c = unitOf d \<longleftrightarrow> c = d"
proof
  assume "unitOf c = unitOf d"
  then have "unat (unitOf c) = unat (unitOf d)"
    by simp
  then have "(of_char c :: nat) = of_char d"
    by (simp add: unat_unitOf)
  then show "c = d"
    by simp
qed simp

lemma startsWith_unitsOf: "startsWith (unitsOf s) (unitsOf w) = startsWith s w"
  by (induction s w rule: startsWith.induct) (simp_all add: unitsOf_def unitOf_inject)

lemma includesStr_unitsOf: "includesStr (unitsOf s) (unitsOf w) = includesStr s w"
proof (induction s)
  case Nil
  then show ?case by (simp add: unitsOf_def)
next
  case (Cons d s)
  have "startsWith (unitsOf (d # s)) (unitsOf w) = startsWith (d # s) w"
    by (rule startsWith_unitsOf)
  with Cons show ?case
    by (simp add: unitsOf_def)
qed

lemma stringToCodePoints_single:
  assumes "\<not> isLeadSurrogate u"
  shows "stringToCodePoints (u # us) = unat u # stringToCodePoints us"
  using assms by (cases us) simp_all

lemma stringToCodePoints_unitsOf: "stringToCodePoints (unitsOf s) = map of_char s"
proof (induction s)
  case Nil
  then show ?case by (simp add: unitsOf_def)
next
  case (Cons c s)
  have "\<not> isLeadSurrogate (unitOf c)"
    unfolding isLeadSurrogate_def unat_unitOf
    using nat_of_char_less_256 [of c] by linarith
  then have "stringToCodePoints (unitOf c # unitsOf s) = unat (unitOf c) # stringToCodePoints (unitsOf s)"
    by (rule stringToCodePoints_single)
  with Cons show ?case
    by (simp add: unitsOf_def unat_unitOf)
qed

lemma simpleLowercase_of_char:
  "simpleLowercase (of_char c) = of_char (toLowerCaseUnit c)"
proof -
  let ?n = "of_char c :: nat"
  have n: "?n < 256"
    by (rule nat_of_char_less_256)
  show ?thesis
  proof (cases "(65 \<le> ?n \<and> ?n \<le> 90) \<or> (192 \<le> ?n \<and> ?n \<le> 222 \<and> ?n \<noteq> 215)")
    case True
    then have "?n + 32 < 256"
      by auto
    then have "(of_char (char_of (?n + 32)) :: nat) = ?n + 32"
      by (simp add: of_char_of)
    with True n show ?thesis
      by (simp only: simpleLowercase_latin1 toLowerCaseUnit_def Let_def if_True)
  next
    case False
    with n show ?thesis
      by (simp only: simpleLowercase_latin1 toLowerCaseUnit_def Let_def if_False)
  qed
qed

lemma toLowercaseFrom_latin1:
  "toLowercaseFrom fs prev (map of_char s) = map (\<lambda>c. of_char (toLowerCaseUnit c)) s"
proof (induction s arbitrary: prev)
  case Nil
  then show ?case by simp
next
  case (Cons c s)
  have "(of_char c :: nat) \<noteq> 0x3A3" "(of_char c :: nat) \<noteq> 0x130"
    using nat_of_char_less_256 [of c] by linarith+
  with Cons show ?case
    by (simp add: simpleLowercase_of_char)
qed

lemma codePointsToString_latin1:
  "codePointsToString (map (\<lambda>c. of_char (f c)) s) = unitsOf (map f s)"
proof (induction s)
  case Nil
  then show ?case by (simp add: codePointsToString_def unitsOf_def)
next
  case (Cons c s)
  have "(of_char (f c) :: nat) < 0x10000"
    using nat_of_char_less_256 [of "f c"] by linarith
  then have "utf16Encode (of_char (f c)) = [unitOf (f c)]"
    by (simp add: utf16Encode_def unitOf_def)
  with Cons show ?case
    by (simp add: codePointsToString_def unitsOf_def)
qed

lemma toLowerCase16_unitsOf: "toLowerCase16 fs (unitsOf s) = unitsOf (toLowerCase s)"
  by (simp add: toLowerCase16_def stringToCodePoints_unitsOf toLowercaseFrom_latin1
      codePointsToString_latin1 toLowerCase_def)

lemma analyzeSpam16_unitsOf: "analyzeSpam16 fs (unitsOf s) = analyzeSpam s"
proof -
  have "filter (\<lambda>w. includesStr (toLowerCase16 fs (unitsOf s)) (unitsOf w)) SPAM_KEYWORDS
      = filter (includesStr (toLowerCase s)) SPAM_KEYWORDS"
    by (simp add: toLowerCase16_unitsOf includesStr_unitsOf)
  then show ?thesis
    by (simp add: analyzeSpam16_def analyzeSpam_def Let_def fold_pushIfIncluded16
        fold_pushIfIncluded)
qed

text \<open>
  Claim C3. For a text of any code units, the matched indicators are exactly the lexicon
  entries that occur in the text as a case-insensitive substring, in the order of the
  lexicon (the list is the lexicon filtered), and none is listed twice. The same holds of
  the classifier on Latin-1 strings.
\<close>

theorem C3_matched_exactly_lexicon_order:
  "matchedKeywords (analyzeSpam16 finalSigma txt)
     = filter (\<lambda>w. occursIgnoringCase w txt) SPAM_KEYWORDS
   \<and> distinct (matchedKeywords (analyzeSpam16 finalSigma txt))
   \<and> matchedKeywords (analyzeSpam s)
     = filter (\<lambda>w. occursIgnoringCase w (unitsOf s)) SPAM_KEYWORDS
   \<and> distinct (matchedKeywords (analyzeSpam s))"
proof -
  have every: "matchedKeywords (analyzeSpam16 fs t)
      = filter (\<lambda>w. occursIgnoringCase w t) SPAM_KEYWORDS
    \<and> distinct (matchedKeywords (analyzeSpam16 fs t))" for fs t
  proof -
    have "filter (\<lambda>w. includesStr (toLowerCase16 fs t) (unitsOf w)) SPAM_KEYWORDS
        = filter (\<lambda>w. occursIgnoringCase w t) SPAM_KEYWORDS"
      by (rule filter_cong) (simp_all add: includes_lowered_iff_occurs)
    moreover have "distinct (filter (\<lambda>w. includesStr (toLowerCase16 fs t) (unitsOf w))
        SPAM_KEYWORDS)"
      using distinct_SPAM_KEYWORDS by simp
    ultimately show ?thesis
      by (simp add: matchedKeywords16_filter)
  qed
  have units: "analyzeSpam s = analyzeSpam16 finalSigma (unitsOf s)"
    by (simp add: analyzeSpam16_unitsOf)
  have a: "matchedKeywords (analyzeSpam16 finalSigma txt)
      = filter (\<lambda>w. occursIgnoringCase w txt) SPAM_KEYWORDS
    \<and> distinct (matchedKeywords (analyzeSpam16 finalSigma txt))"
    by (rule every)
  have b: "matchedKeywords (analyzeSpam16 finalSigma (unitsOf s))
      = filter (\<lambda>w. occursIgnoringCase w (unitsOf s)) SPAM_KEYWORDS
    \<and> distinct (matchedKeywords (analyzeSpam16 finalSigma (unitsOf s)))"
    by (rule every)
  from a b show ?thesis
    unfolding units by blast
qed

lemma scenario1_matched:
  "matchedKeywords (analyzeSpam ''Congratulations! You are a WINNER of a FREE prize. Click here now!'')
     = [''free'', ''win'', ''winner'', ''prize'', ''congratulations'', ''click here'']"
  by code_simp

text \<open>
  Claim C9. For the text of scenario 1, the matched indicators include \<open>congratulations\<close>,
  \<open>winner\<close>, \<open>free\<close>, \<open>prize\<close> and \<open>click here\<close>, the probability is one and the
  verdict is \<open>spam\<close>.
\<close>

theorem C9_scenario_congratulations:
  "set [''congratulations'', ''winner'', ''free'', ''prize'', ''click here'']
     \<subseteq> set (matchedKeywords (analyzeSpam ''Congratulations! You are a WINNER of a FREE prize. Click here now!''))
   \<and> probability (analyzeSpam ''Congratulations! You are a WINNER of a FREE prize. Click here now!'') = 1
   \<and> result (analyzeSpam ''Congratulations! You are a WINNER of a FREE prize. Click here now!'') = ''spam''"
proof -
  let ?a = "analyzeSpam ''Congratulations! You are a WINNER of a FREE prize. Click here now!''"
  have m: "matchedKeywords ?a = [''free'', ''win'', ''winner'', ''prize'', ''congratulations'', ''click here'']"
    by (rule scenario1_matched)
  have p: "probability ?a = 1"
    by (simp only: probability_analyzeSpam m) simp
  have r: "result ?a = ''spam''"
    by (simp only: result_analyzeSpam p) simp
  show ?thesis
    using p r by (simp add: m)
qed

section \<open>Facts about the notification decision\<close>

lemma shouldNotify_iff:
  "shouldNotify notifyEmail defaultTo p
     \<longleftrightarrow> (truthy notifyEmail \<or> truthy (envValue defaultTo)) \<and> p * 100 \<ge> 40"
  by (simp add: shouldNotify_def orElse_def)

lemma mail_to_alertMailOptions:
  "mail_to (alertMailOptions env toEmail text p kws)
     = (if truthy toEmail then toEmail else envValue (ALERT_DEFAULT_TO env))"
  by (simp add: alertMailOptions_def Let_def orElse_def)

text \<open>
  Claim C4. The handler decides to send exactly when a recipient is there (the caller's
  \<open>notifyEmail\<close> is present, which the source tests as truthy, or \<open>ALERT_DEFAULT_TO\<close> is set to
  a non-empty string) and \<open>probability * 100 \<ge> 40\<close>. The mail goes to the caller's recipient
  when present, otherwise to the default. With a recipient provided, probability \<open>0.39\<close>
  sends nothing and probability \<open>0.40\<close> sends.
\<close>

theorem C4_notification_decision:
  "(shouldNotify notifyEmail (ALERT_DEFAULT_TO env) p
      \<longleftrightarrow> (truthy notifyEmail \<or> (\<exists>d. ALERT_DEFAULT_TO env = Some d \<and> d \<noteq> [])) \<and> p * 100 \<ge> 40)
   \<and> mail_to (alertMailOptions env notifyEmail text p kws)
      = (if truthy notifyEmail then notifyEmail
         else case ALERT_DEFAULT_TO env of None \<Rightarrow> JUndefined | Some d \<Rightarrow> JStr d)
   \<and> \<not> shouldNotify (JStr (c # r)) (ALERT_DEFAULT_TO env) (39 / 100)
   \<and> shouldNotify (JStr (c # r)) (ALERT_DEFAULT_TO env) (40 / 100)"
proof -
  have cfg: "truthy (envValue (ALERT_DEFAULT_TO env))
      \<longleftrightarrow> (\<exists>d. ALERT_DEFAULT_TO env = Some d \<and> d \<noteq> [])"
    by (cases "ALERT_DEFAULT_TO env") (simp_all add: envValue_def)
  have a: "shouldNotify notifyEmail (ALERT_DEFAULT_TO env) p
      \<longleftrightarrow> (truthy notifyEmail \<or> (\<exists>d. ALERT_DEFAULT_TO env = Some d \<and> d \<noteq> [])) \<and> p * 100 \<ge> 40"
    by (simp only: shouldNotify_iff cfg)
  have b: "mail_to (alertMailOptions env notifyEmail text p kws)
      = (if truthy notifyEmail then notifyEmail
         else case ALERT_DEFAULT_TO env of None \<Rightarrow> JUndefined | Some d \<Rightarrow> JStr d)"
    by (simp add: mail_to_alertMailOptions envValue_def)
  have c: "\<not> shouldNotify (JStr (c # r)) (ALERT_DEFAULT_TO env) (39 / 100)"
    by (simp add: shouldNotify_iff)
  have d: "shouldNotify (JStr (c # r)) (ALERT_DEFAULT_TO env) (40 / 100)"
    by (simp add: shouldNotify_iff)
  from a b c d show ?thesis
    by (intro conjI)
qed

lemma free_cash_matched: "matchedKeywords (analyzeSpam ''Free cash'') = [''free'', ''cash'']"
  by code_simp

lemma free_cash_probability: "probability (analyzeSpam ''Free cash'') = 2 / 5"
  by (simp add: probability_analyzeSpam free_cash_matched)

lemma free_cash_result: "result (analyzeSpam ''Free cash'') = ''not_spam''"
  by (simp only: result_analyzeSpam free_cash_probability) simp

lemma free_cash_trim: "trim ''Free cash'' \<noteq> []"
  by code_simp

lemma probability_times_100:
  "probability (analyzeSpam text) * 100 \<ge> 40 \<longleftrightarrow> 2 \<le> length (matchedKeywords (analyzeSpam text))"
proof -
  let ?n = "length (matchedKeywords (analyzeSpam text))"
  have "min (1::rat) (of_nat ?n / 5) * 100 \<ge> 40 \<longleftrightarrow> (2::rat) \<le> of_nat ?n"
    by (simp add: min_def)
  also have "\<dots> \<longleftrightarrow> 2 \<le> ?n"
    by (metis of_nat_le_iff of_nat_numeral)
  finally show ?thesis
    by (simp only: probability_analyzeSpam)
qed

lemma probability_half:
  "probability (analyzeSpam text) \<ge> 1 / 2 \<longleftrightarrow> 3 \<le> length (matchedKeywords (analyzeSpam text))"
proof -
  let ?n = "length (matchedKeywords (analyzeSpam text))"
  have "min (1::rat) (of_nat ?n / 5) \<ge> 1 / 2 \<longleftrightarrow> (5::rat) \<le> of_nat ?n * 2"
    by (simp add: min_def)
  also have "\<dots> \<longleftrightarrow> 5 \<le> ?n * 2"
    by (metis of_nat_le_iff of_nat_numeral of_nat_mult)
  also have "\<dots> \<longleftrightarrow> 3 \<le> ?n"
    by arith
  finally show ?thesis
    by (simp only: probability_analyzeSpam)
qed

text \<open>
  Claim C10. Notification is not tied to the verdict \<open>spam\<close>: with a recipient present the
  handler sends exactly when at least two indicators matched, while the verdict is \<open>spam\<close>
  exactly when at least three matched; a text matching exactly two indicators has verdict
  \<open>not_spam\<close> and probability \<open>0.4\<close> and is notified; \<open>Free cash\<close> is such a text.
\<close>

theorem C10_notification_below_spam_verdict:
  assumes "truthy notifyEmail"
  shows "(shouldNotify notifyEmail defaultTo (probability (analyzeSpam text))
            \<longleftrightarrow> 2 \<le> length (matchedKeywords (analyzeSpam text)))
       \<and> (result (analyzeSpam text) = ''spam''
            \<longleftrightarrow> 3 \<le> length (matchedKeywords (analyzeSpam text)))
       \<and> (length (matchedKeywords (analyzeSpam text)) = 2
            \<longrightarrow> result (analyzeSpam text) = ''not_spam''
              \<and> probability (analyzeSpam text) = 2 / 5
              \<and> shouldNotify notifyEmail defaultTo (probability (analyzeSpam text)))"
proof -
  let ?a = "analyzeSpam text"
  have n: "shouldNotify notifyEmail defaultTo (probability ?a) \<longleftrightarrow> 2 \<le> length (matchedKeywords ?a)"
    using assms by (simp only: shouldNotify_iff probability_times_100) simp
  have s: "result ?a = ''spam'' \<longleftrightarrow> 3 \<le> length (matchedKeywords ?a)"
    by (simp only: result_analyzeSpam probability_half) simp
  have two: "result ?a = ''not_spam'' \<and> probability ?a = 2 / 5"
    if "length (matchedKeywords ?a) = 2"
  proof -
    have "\<not> 3 \<le> length (matchedKeywords ?a)"
      using that by simp
    then have "result ?a = ''not_spam''"
      by (simp only: result_analyzeSpam probability_half if_False)
    moreover have "probability ?a = 2 / 5"
      by (simp add: probability_analyzeSpam that)
    ultimately show ?thesis by simp
  qed
  show ?thesis
    using n s two by auto
qed

theorem C10_witness_free_cash:
  "truthy (JStr ''a@b.c'')
   \<and> length (matchedKeywords (analyzeSpam ''Free cash'')) = 2
   \<and> result (analyzeSpam ''Free cash'') = ''not_spam''
   \<and> probability (analyzeSpam ''Free cash'') = 2 / 5
   \<and> shouldNotify (JStr ''a@b.c'') None (probability (analyzeSpam ''Free cash''))"
  using C10_notification_below_spam_verdict [of "JStr ''a@b.c''" None "''Free cash''"]
  by (simp add: free_cash_matched)

section \<open>Facts about the check handler\<close>

lemma trim_Nil_iff: "trim s = [] \<longleftrightarrow> list_all isWhiteSpace s"
proof
  assume t: "trim s = []"
  show "list_all isWhiteSpace s"
  proof (rule ccontr)
    assume "\<not> list_all isWhiteSpace s"
    then have ne: "dropWhile isWhiteSpace s \<noteq> []"
      by (simp add: list_all_iff dropWhile_eq_Nil_conv)
    then have "\<not> isWhiteSpace (hd (dropWhile isWhiteSpace s))"
      by (rule hd_dropWhile)
    moreover from t have "\<forall>x \<in> set (dropWhile isWhiteSpace s). isWhiteSpace x"
      by (simp add: trim_def dropWhile_eq_Nil_conv)
    ultimately show False
      using ne by (metis hd_in_set)
  qed
next
  assume "list_all isWhiteSpace s"
  then have "dropWhile isWhiteSpace s = []"
    by (simp add: list_all_iff dropWhile_eq_Nil_conv)
  then show "trim s = []"
    by (simp only: trim_def rev.simps dropWhile.simps)
qed

text \<open>
  Claim C6. A submission whose text is empty or all white space (empty after trimming) is
  answered 400 with a message, and the state is the one before the request: no record is
  stored and no mail is handed to the transport.
\<close>

theorem C6_blank_text_rejected:
  assumes "body_text body = JStr s" and "list_all isWhiteSpace s"
  shows "postCheck env sendMail newId now body w = (Status 400 ''Text is required'', w)
       \<and> trim s = []
       \<and> docs (snd (postCheck env sendMail newId now body w)) = docs w
       \<and> mailAttempts (snd (postCheck env sendMail newId now body w)) = mailAttempts w"
proof -
  have t: "trim s = []"
    using assms(2) by (simp add: trim_Nil_iff)
  have "postCheck env sendMail newId now body w = (Status 400 ''Text is required'', w)"
    using assms(1) t by (simp add: postCheck_def Let_def)
  with t show ?thesis
    by simp
qed

lemma blank_example: "list_all isWhiteSpace [CHR '' '', CHR 0x09, CHR 0x0A, CHR '' '']"
  by code_simp

theorem C6_witness_blank:
  "body_text \<lparr> body_text = JStr [CHR '' '', CHR 0x09, CHR 0x0A, CHR '' ''],
               body_notifyEmail = JStr ''a@b.c'' \<rparr> = JStr [CHR '' '', CHR 0x09, CHR 0x0A, CHR '' '']
   \<and> list_all isWhiteSpace [CHR '' '', CHR 0x09, CHR 0x0A, CHR '' '']
   \<and> postCheck env0 (\<lambda>m. Inr ''id-1'') 1 1000
         \<lparr> body_text = JStr [CHR '' '', CHR 0x09, CHR 0x0A, CHR '' ''],
           body_notifyEmail = JStr ''a@b.c'' \<rparr> world0
       = (Status 400 ''Text is required'', world0)"
  using C6_blank_text_rejected [of "\<lparr> body_text = JStr [CHR '' '', CHR 0x09, CHR 0x0A, CHR '' ''],
           body_notifyEmail = JStr ''a@b.c'' \<rparr>" "[CHR '' '', CHR 0x09, CHR 0x0A, CHR '' '']"
           env0 "\<lambda>m. Inr ''id-1''" 1 1000 world0] blank_example
  by simp

lemma postCheck_persisted:
  assumes "body_text body = JStr s" and "trim s \<noteq> []" and "dbUp w"
  shows "fst (postCheck env sendMail newId now body w)
           = Json \<lparr> reply_id = newId, reply_result = result (analyzeSpam s),
                    reply_spamProbability = probability (analyzeSpam s),
                    reply_matchedKeywords = matchedKeywords (analyzeSpam s),
                    reply_createdAt = now \<rparr>"
proof -
  from assms(2) have "s \<noteq> []"
    by (auto simp: trim_def)
  with assms show ?thesis
    by (simp add: postCheck_def Let_def create_def split: prod.splits sum.splits)
qed

lemma postCheck_docs:
  assumes "body_text body = JStr s" and "trim s \<noteq> []" and "dbUp w"
  shows "docs (snd (postCheck env sendMail newId now body w))
           = docs w @ [\<lparr> doc_id = newId, doc_text = s, doc_result = result (analyzeSpam s),
                          doc_spamProbability = probability (analyzeSpam s),
                          doc_matchedKeywords = matchedKeywords (analyzeSpam s),
                          doc_createdAt = now \<rparr>]"
proof -
  from assms(2) have "s \<noteq> []"
    by (auto simp: trim_def)
  with assms show ?thesis
    by (simp add: postCheck_def Let_def create_def sendAlertEmail_def
          split: prod.splits sum.splits)
qed

lemma postCheck_mail_failure:
  assumes "body_text body = JStr s" and "trim s \<noteq> []" and "dbUp w"
    and "shouldNotify (body_notifyEmail body) (ALERT_DEFAULT_TO env) (probability (analyzeSpam s))"
    and "sendMail (alertMailOptions env (body_notifyEmail body) s (probability (analyzeSpam s))
           (matchedKeywords (analyzeSpam s))) = Inl err"
  shows "console (snd (postCheck env sendMail newId now body w))
           = console w @ [ErrorSendingAlertEmail err]
       \<and> mailAttempts (snd (postCheck env sendMail newId now body w))
           = mailAttempts w @ [alertMailOptions env (body_notifyEmail body) s
                 (probability (analyzeSpam s)) (matchedKeywords (analyzeSpam s))]"
proof -
  from assms(2) have "s \<noteq> []"
    by (auto simp: trim_def)
  with assms show ?thesis
    by (simp add: postCheck_def Let_def create_def sendAlertEmail_def)
qed

section \<open>Facts about the history handler\<close>

lemma docs_getHistory: "docs (snd (getHistory sortDesc w)) = docs w"
  by (simp add: getHistory_def)

section \<open>The check handler and the transport\<close>

text \<open>
  Claim C5. When the text is valid and the document is stored, the response is the stored
  classification with status 200, whatever the transport answers: it is the same response
  for any other transport, recipient and default recipient (so also when the mail is
  delivered and when none is sent). The error of a failing transport ends in the console.
\<close>

theorem C5_notification_failure_isolated:
  assumes "body_text body = JStr s" and "trim s \<noteq> []" and "dbUp w"
  shows "fst (postCheck env sendMail newId now body w)
           = Json \<lparr> reply_id = newId, reply_result = result (analyzeSpam s),
                    reply_spamProbability = probability (analyzeSpam s),
                    reply_matchedKeywords = matchedKeywords (analyzeSpam s),
                    reply_createdAt = now \<rparr>
       \<and> fst (postCheck env sendMail newId now body w)
           = fst (postCheck env' sendMail' newId now (body\<lparr>body_notifyEmail := notifyEmail'\<rparr>) w)
       \<and> docs (snd (postCheck env sendMail newId now body w))
           = docs w @ [\<lparr> doc_id = newId, doc_text = s, doc_result = result (analyzeSpam s),
                          doc_spamProbability = probability (analyzeSpam s),
                          doc_matchedKeywords = matchedKeywords (analyzeSpam s),
                          doc_createdAt = now \<rparr>]
       \<and> (shouldNotify (body_notifyEmail body) (ALERT_DEFAULT_TO env) (probability (analyzeSpam s))
            \<and> sendMail (alertMailOptions env (body_notifyEmail body) s
                  (probability (analyzeSpam s)) (matchedKeywords (analyzeSpam s))) = Inl err
          \<longrightarrow> console (snd (postCheck env sendMail newId now body w))
                = console w @ [ErrorSendingAlertEmail err])"
proof -
  have other: "body_text (body\<lparr>body_notifyEmail := notifyEmail'\<rparr>) = JStr s"
    using assms(1) by simp
  have a: "fst (postCheck env sendMail newId now body w)
      = Json \<lparr> reply_id = newId, reply_result = result (analyzeSpam s),
               reply_spamProbability = probability (analyzeSpam s),
               reply_matchedKeywords = matchedKeywords (analyzeSpam s),
               reply_createdAt = now \<rparr>"
    using assms by (rule postCheck_persisted)
  have b: "fst (postCheck env' sendMail' newId now (body\<lparr>body_notifyEmail := notifyEmail'\<rparr>) w)
      = Json \<lparr> reply_id = newId, reply_result = result (analyzeSpam s),
               reply_spamProbability = probability (analyzeSpam s),
               reply_matchedKeywords = matchedKeywords (analyzeSpam s),
               reply_createdAt = now \<rparr>"
    using other assms(2,3) by (rule postCheck_persisted)
  have c: "docs (snd (postCheck env sendMail newId now body w))
      = docs w @ [\<lparr> doc_id = newId, doc_text = s, doc_result = result (analyzeSpam s),
                     doc_spamProbability = probability (analyzeSpam s),
                     doc_matchedKeywords = matchedKeywords (analyzeSpam s),
                     doc_createdAt = now \<rparr>]"
    using assms by (rule postCheck_docs)
  have d: "console (snd (postCheck env sendMail newId now body w))
      = console w @ [ErrorSendingAlertEmail err]"
    if "shouldNotify (body_notifyEmail body) (ALERT_DEFAULT_TO env) (probability (analyzeSpam s))"
      and "sendMail (alertMailOptions env (body_notifyEmail body) s
                  (probability (analyzeSpam s)) (matchedKeywords (analyzeSpam s))) = Inl err"
  proof -
    have "console (snd (postCheck env sendMail newId now body w))
        = console w @ [ErrorSendingAlertEmail err]
      \<and> mailAttempts (snd (postCheck env sendMail newId now body w))
        = mailAttempts w @ [alertMailOptions env (body_notifyEmail body) s
              (probability (analyzeSpam s)) (matchedKeywords (analyzeSpam s))]"
      using assms that by (rule postCheck_mail_failure)
    then show ?thesis
      by (rule conjunct1)
  qed
  show ?thesis
    using a b c d by simp
qed

theorem C5_witness_refused:
  "body_text bodyFreeCash = JStr ''Free cash'' \<and> trim ''Free cash'' \<noteq> [] \<and> dbUp world0
   \<and> shouldNotify (body_notifyEmail bodyFreeCash) (ALERT_DEFAULT_TO env0)
        (probability (analyzeSpam ''Free cash''))
   \<and> fst (postCheck env0 refuse 7 1000 bodyFreeCash world0)
       = Json \<lparr> reply_id = 7, reply_result = ''not_spam'', reply_spamProbability = 2 / 5,
                reply_matchedKeywords = [''free'', ''cash''], reply_createdAt = 1000 \<rparr>
   \<and> fst (postCheck env0 refuse 7 1000 bodyFreeCash world0)
       = fst (postCheck env0 (\<lambda>m. Inr ''message-1'') 7 1000 bodyFreeCash world0)
   \<and> fst (postCheck env0 refuse 7 1000 bodyFreeCash world0)
       = fst (postCheck env0 refuse 7 1000 (bodyFreeCash\<lparr>body_notifyEmail := JNull\<rparr>) world0)
   \<and> console (snd (postCheck env0 refuse 7 1000 bodyFreeCash world0))
       = [ErrorSendingAlertEmail ''ECONNREFUSED'']"
proof -
  have t: "body_text bodyFreeCash = JStr ''Free cash''"
    by (simp add: bodyFreeCash_def)
  have up: "dbUp world0"
    by (simp add: world0_def)
  have n: "shouldNotify (body_notifyEmail bodyFreeCash) (ALERT_DEFAULT_TO env0)
      (probability (analyzeSpam ''Free cash''))"
    by (simp add: shouldNotify_def orElse_def bodyFreeCash_def free_cash_probability)
  have r: "refuse (alertMailOptions env0 (body_notifyEmail bodyFreeCash) ''Free cash''
      (probability (analyzeSpam ''Free cash'')) (matchedKeywords (analyzeSpam ''Free cash'')))
      = Inl ''ECONNREFUSED''"
    by (simp add: refuse_def)
  have c0: "console world0 = []"
    by (simp add: world0_def)
  let ?reply = "Json \<lparr> reply_id = 7, reply_result = ''not_spam'', reply_spamProbability = 2 / 5,
      reply_matchedKeywords = [''free'', ''cash''], reply_createdAt = 1000 \<rparr>"
  have t': "body_text (bodyFreeCash\<lparr>body_notifyEmail := JNull\<rparr>) = JStr ''Free cash''"
    by (simp add: bodyFreeCash_def)
  have a: "fst (postCheck env0 refuse 7 1000 bodyFreeCash world0) = ?reply"
    using C5_notification_failure_isolated [OF t free_cash_trim up, of env0 refuse 7 1000,
        THEN conjunct1]
    by (simp only: free_cash_result free_cash_probability free_cash_matched)
  have b: "fst (postCheck env0 (\<lambda>m. Inr ''message-1'') 7 1000 bodyFreeCash world0) = ?reply"
    using C5_notification_failure_isolated [OF t free_cash_trim up,
        of env0 "\<lambda>m. Inr ''message-1''" 7 1000, THEN conjunct1]
    by (simp only: free_cash_result free_cash_probability free_cash_matched)
  have c: "fst (postCheck env0 refuse 7 1000 (bodyFreeCash\<lparr>body_notifyEmail := JNull\<rparr>) world0)
      = ?reply"
    using C5_notification_failure_isolated [OF t' free_cash_trim up, of env0 refuse 7 1000,
        THEN conjunct1]
    by (simp only: free_cash_result free_cash_probability free_cash_matched)
  have d: "console (snd (postCheck env0 refuse 7 1000 bodyFreeCash world0))
      = [ErrorSendingAlertEmail ''ECONNREFUSED'']"
    using C5_notification_failure_isolated [OF t free_cash_trim up, of env0 refuse 7 1000 env0
        refuse JNull "''ECONNREFUSED''"] n r
    by (simp add: c0)
  show ?thesis
    using t free_cash_trim up n a b c d by simp
qed

section \<open>The text in the history\<close>

lemma docs_snd_postCheck_last:
  assumes "body_text body = JStr s" and "trim s \<noteq> []" and "dbUp w"
  shows "doc_text (last (docs (snd (postCheck env sendMail newId now body w)))) = s"
  by (simp add: postCheck_docs [OF assms])

text \<open>
  Claim C8. In a history entry, a stored text of more than 80 units is shown as its first 77
  units followed by \<open>...\<close>, 80 units in all; a text of at most 80 units is shown unchanged.
  The stored text is whole: the check handler stores the submitted text as it is, and the
  history handler leaves the collection as it was.
\<close>

theorem C8_history_text_truncation:
  "entry_text (historyEntryOf d)
     = (if length (doc_text d) > 80 then take 77 (doc_text d) @ ''...'' else doc_text d)
   \<and> (length (doc_text d) > 80
        \<longrightarrow> length (entry_text (historyEntryOf d)) = 80
          \<and> take 77 (entry_text (historyEntryOf d)) = take 77 (doc_text d)
          \<and> drop 77 (entry_text (historyEntryOf d)) = ''...'')
   \<and> (length (doc_text d) \<le> 80 \<longrightarrow> entry_text (historyEntryOf d) = doc_text d)
   \<and> (dbUp w \<longrightarrow> fst (getHistory sortDesc w)
                    = Json (map historyEntryOf (take 10 (sortDesc (docs w)))))
   \<and> docs (snd (getHistory sortDesc w)) = docs w
   \<and> (body_text body = JStr s \<and> trim s \<noteq> [] \<and> dbUp w
        \<longrightarrow> doc_text (last (docs (snd (postCheck env sendMail newId now body w)))) = s)"
proof -
  have a: "entry_text (historyEntryOf d)
      = (if length (doc_text d) > 80 then take 77 (doc_text d) @ ''...'' else doc_text d)"
    by (simp add: historyEntryOf_def)
  have b: "length (entry_text (historyEntryOf d)) = 80
      \<and> take 77 (entry_text (historyEntryOf d)) = take 77 (doc_text d)
      \<and> drop 77 (entry_text (historyEntryOf d)) = ''...''"
    if "length (doc_text d) > 80"
    using that by (simp add: a min_def)
  have c: "entry_text (historyEntryOf d) = doc_text d" if "length (doc_text d) \<le> 80"
    using that by (simp add: a)
  have g: "fst (getHistory sortDesc w) = Json (map historyEntryOf (take 10 (sortDesc (docs w))))"
    if "dbUp w"
    using that by (simp add: getHistory_def)
  have p: "doc_text (last (docs (snd (postCheck env sendMail newId now body w)))) = s"
    if "body_text body = JStr s \<and> trim s \<noteq> [] \<and> dbUp w"
    using that by (simp add: docs_snd_postCheck_last)
  show ?thesis
    using a b c g p docs_getHistory [of sortDesc w] by blast
qed

theorem C8_witness_long_short:
  "length (doc_text (exampleDoc 11 longText 1000)) = 100
   \<and> length (entry_text (historyEntryOf (exampleDoc 11 longText 1000))) = 80
   \<and> entry_text (historyEntryOf (exampleDoc 11 longText 1000)) = replicate 77 (CHR ''x'') @ ''...''
   \<and> length (doc_text (exampleDoc 12 shortText 1000)) = 50
   \<and> entry_text (historyEntryOf (exampleDoc 12 shortText 1000)) = shortText"
proof -
  have l: "length (doc_text (exampleDoc 11 longText 1000)) = 100"
    by (simp add: exampleDoc_def longText_def)
  have s: "length (doc_text (exampleDoc 12 shortText 1000)) = 50"
    by (simp add: exampleDoc_def shortText_def)
  have t: "take 77 (doc_text (exampleDoc 11 longText 1000)) = replicate 77 (CHR ''x'')"
    by (simp add: exampleDoc_def longText_def)
  have d: "doc_text (exampleDoc 12 shortText 1000) = shortText"
    by (simp add: exampleDoc_def)
  have big: "length (doc_text (exampleDoc 11 longText 1000)) > 80"
    by (simp add: l)
  have small: "length (doc_text (exampleDoc 12 shortText 1000)) \<le> 80"
    by (simp add: s)
  have cut: "length (entry_text (historyEntryOf (exampleDoc 11 longText 1000))) = 80
      \<and> take 77 (entry_text (historyEntryOf (exampleDoc 11 longText 1000)))
          = take 77 (doc_text (exampleDoc 11 longText 1000))
      \<and> drop 77 (entry_text (historyEntryOf (exampleDoc 11 longText 1000))) = ''...''"
    using C8_history_text_truncation [of "exampleDoc 11 longText 1000",
        THEN conjunct2, THEN conjunct1] big
    by blast
  have "entry_text (historyEntryOf (exampleDoc 11 longText 1000))
      = take 77 (entry_text (historyEntryOf (exampleDoc 11 longText 1000)))
        @ drop 77 (entry_text (historyEntryOf (exampleDoc 11 longText 1000)))"
    by (simp only: append_take_drop_id)
  then have shown: "entry_text (historyEntryOf (exampleDoc 11 longText 1000))
      = replicate 77 (CHR ''x'') @ ''...''"
    using cut t by simp
  have same: "entry_text (historyEntryOf (exampleDoc 12 shortText 1000)) = shortText"
    using C8_history_text_truncation [of "exampleDoc 12 shortText 1000",
        THEN conjunct2, THEN conjunct2, THEN conjunct1] small d
    by simp
  from l cut shown s same show ?thesis
    by (intro conjI) simp_all
qed

end
